theory Spec2Isabelle
  imports Main
begin

section \<open>The environment of the logger\<close>

text \<open>
  The logger of \<^verbatim>\<open>src/openlog/logger.py\<close> talks to three things outside itself: the
  system clock (\<^verbatim>\<open>datetime.now()\<close>), the file system (\<^verbatim>\<open>os.getcwd\<close>, \<^verbatim>\<open>os.path.isdir\<close>,
  \<^verbatim>\<open>os.mkdir\<close>, \<^verbatim>\<open>open\<close>/\<^verbatim>\<open>write\<close>/\<^verbatim>\<open>close\<close>) and the console
  (\<^verbatim>\<open>Console.print\<close>). They are gathered in one record, threaded through every operation.
\<close>

subsection \<open>Exceptions\<close>

datatype exn = IndexError | FileExistsError | FileNotFoundError | IsADirectoryError | MarkupError

definition and_then :: "exn + 'a \<Rightarrow> ('a \<Rightarrow> exn + 'b) \<Rightarrow> exn + 'b" where
  "and_then m f = (case m of Inl e \<Rightarrow> Inl e | Inr x \<Rightarrow> f x)"

subsection \<open>Python string and list operations used by the source\<close>

definition newline :: char where
  "newline = CHR 0x0A"

text \<open>\<^verbatim>\<open>s.split(sep)\<close> for a separator of one character.\<close>

fun split :: "string \<Rightarrow> char \<Rightarrow> string list" where
  "split [] sep = [[]]"
| "split (c # cs) sep =
     (if c = sep then [] # split cs sep
      else (case split cs sep of [] \<Rightarrow> [[c]] | p # ps \<Rightarrow> (c # p) # ps))"

text \<open>\<^verbatim>\<open>sep.join(parts)\<close>.\<close>

fun join :: "string \<Rightarrow> string list \<Rightarrow> string" where
  "join sep [] = []"
| "join sep [p] = p"
| "join sep (p # q # ps) = p @ sep @ join sep (q # ps)"

text \<open>\<^verbatim>\<open>s.replace(old, new)\<close> for \<open>old\<close> and \<open>new\<close> of one character each.\<close>

definition replace :: "string \<Rightarrow> char \<Rightarrow> char \<Rightarrow> string" where
  "replace s old new = map (\<lambda>c. if c = old then new else c) s"

text \<open>\<^verbatim>\<open>xs[i]\<close> for a literal index \<open>i \<ge> 0\<close>: out of range raises.\<close>

definition index :: "'a list \<Rightarrow> nat \<Rightarrow> exn + 'a" where
  "index xs i = (if i < length xs then Inr (xs ! i) else Inl IndexError)"

subsection \<open>The clock: \<^verbatim>\<open>datetime\<close> and its \<^verbatim>\<open>str\<close>\<close>

record datetime =
  year :: nat
  month :: nat
  day :: nat
  hour :: nat
  minute :: nat
  second :: nat
  microsecond :: nat

text \<open>The ranges every \<^verbatim>\<open>datetime\<close> object of the standard library satisfies.\<close>

definition valid_datetime :: "datetime \<Rightarrow> bool" where
  "valid_datetime d =
     (1 \<le> year d \<and> year d \<le> 9999 \<and> 1 \<le> month d \<and> month d \<le> 12 \<and>
      1 \<le> day d \<and> day d \<le> 31 \<and> hour d < 24 \<and> minute d < 60 \<and> second d < 60 \<and>
      microsecond d < 1000000)"

definition digit_char :: "nat \<Rightarrow> char" where
  "digit_char d = ''0123456789'' ! (d mod 10)"

fun str_nat :: "nat \<Rightarrow> string" where
  "str_nat n = (if n < 10 then [digit_char n] else str_nat (n div 10) @ [digit_char n])"

declare str_nat.simps [simp del]

text \<open>The format \<^verbatim>\<open>%0wd\<close>: decimal, padded with zeros on the left to width \<open>w\<close>.\<close>

definition zpad :: "nat \<Rightarrow> nat \<Rightarrow> string" where
  "zpad w n = replicate (w - length (str_nat n)) (CHR ''0'') @ str_nat n"

text \<open>
  \<^verbatim>\<open>str(d)\<close> is \<^verbatim>\<open>d.isoformat(sep=' ')\<close>: \<^verbatim>\<open>%04d-%02d-%02d %02d:%02d:%02d\<close>, followed by
  \<^verbatim>\<open>.%06d\<close> of the microseconds when they are not zero.
\<close>

definition str_date :: "datetime \<Rightarrow> string" where
  "str_date d = zpad 4 (year d) @ ''-'' @ zpad 2 (month d) @ ''-'' @ zpad 2 (day d)"

definition str_time :: "datetime \<Rightarrow> string" where
  "str_time d = zpad 2 (hour d) @ '':'' @ zpad 2 (minute d) @ '':'' @ zpad 2 (second d)"

definition str_datetime :: "datetime \<Rightarrow> string" where
  "str_datetime d =
     str_date d @ '' '' @ str_time d @
     (if microsecond d = 0 then [] else ''.'' @ zpad 6 (microsecond d))"

subsection \<open>The world\<close>

text \<open>
  \<open>clock\<close> lists the successive readings of the system clock and \<open>ticks\<close> counts the
  readings taken so far, so that every \<^verbatim>\<open>datetime.now()\<close> consumes one reading.
  \<open>dirs\<close> are the existing directories, \<open>files\<close> the regular files with their contents,
  \<open>console\<close> the texts that \<^verbatim>\<open>Console.print\<close> has put on the console, oldest first.
  The last three fields are the parts of Rich that are taken as given: \<open>rich_plain\<close> is
  what Rich makes of a piece of text outside any tag (\<^verbatim>\<open>_emoji_replace\<close>, which replaces
  the emoji codes \<^verbatim>\<open>:name:\<close> of its table, followed by \<^verbatim>\<open>strip_control_codes\<close>),
  \<open>rich_normalize\<close> is \<^verbatim>\<open>Style.normalize\<close> on the name of a tag, and \<open>rich_handler_ok\<close>
  tells whether the parameters of a \<^verbatim>\<open>[@handler=...]\<close> tag evaluate (\<^verbatim>\<open>literal_eval\<close>).
\<close>

record world =
  cwd :: string
  clock :: "nat \<Rightarrow> datetime"
  ticks :: nat
  dirs :: "string set"
  files :: "string \<rightharpoonup> string"
  console :: "string list"
  rich_plain :: "string \<Rightarrow> string"
  rich_normalize :: "string \<Rightarrow> string"
  rich_handler_ok :: "string \<Rightarrow> bool"

definition now :: "world \<Rightarrow> datetime \<times> world" where
  "now w = (clock w (ticks w), w\<lparr>ticks := ticks w + 1\<rparr>)"

text \<open>The directory a path lies in: the path up to its last slash.\<close>

definition parent_dir :: "string \<Rightarrow> string" where
  "parent_dir p = rev (drop 1 (dropWhile (\<lambda>c. c \<noteq> CHR ''/'') (rev p)))"

definition isdir :: "string \<Rightarrow> world \<Rightarrow> bool" where
  "isdir p w = (p \<in> dirs w)"

definition mkdir :: "string \<Rightarrow> world \<Rightarrow> exn + world" where
  "mkdir p w =
     (if p \<in> dirs w \<or> files w p \<noteq> None then Inl FileExistsError
      else if parent_dir p \<notin> dirs w then Inl FileNotFoundError
      else Inr (w\<lparr>dirs := insert p (dirs w)\<rparr>))"

text \<open>The two modes the logger opens its file in: \<^verbatim>\<open>"w+"\<close> and \<^verbatim>\<open>"a+"\<close>.\<close>

datatype open_mode = WritePlus | AppendPlus

definition can_open :: "string \<Rightarrow> world \<Rightarrow> bool" where
  "can_open p w = (p \<notin> dirs w \<and> parent_dir p \<in> dirs w)"

definition file_content :: "string \<Rightarrow> world \<Rightarrow> string" where
  "file_content p w = (case files w p of None \<Rightarrow> [] | Some c \<Rightarrow> c)"

text \<open>
  \<^verbatim>\<open>open(p, mode, encoding="utf-8")\<close>: both modes create a missing file, \<^verbatim>\<open>"w+"\<close> empties an
  existing one, \<^verbatim>\<open>"a+"\<close> keeps it. The file object is represented by its path.
\<close>

definition open_file :: "string \<Rightarrow> open_mode \<Rightarrow> world \<Rightarrow> exn + world" where
  "open_file p mode w =
     (if p \<in> dirs w then Inl IsADirectoryError
      else if parent_dir p \<notin> dirs w then Inl FileNotFoundError
      else Inr (case mode of
                  WritePlus \<Rightarrow> w\<lparr>files := (files w)(p \<mapsto> [])\<rparr>
                | AppendPlus \<Rightarrow> w\<lparr>files := (files w)(p \<mapsto> file_content p w)\<rparr>))"

text \<open>\<^verbatim>\<open>f.write(s); f.close()\<close>: the text goes to the end of the file.\<close>

definition file_write :: "string \<Rightarrow> string \<Rightarrow> world \<Rightarrow> world" where
  "file_write p s w = w\<lparr>files := (files w)(p \<mapsto> file_content p w @ s)\<rparr>"

subsection \<open>The console: Rich markup\<close>

text \<open>
  The logger prints with \<^verbatim>\<open>Console().print(markup)\<close> of Rich, markup and emoji codes switched
  on as they are by default. Rich does not print the string as it is: \<^verbatim>\<open>rich.markup.render\<close>
  reads it as console markup, takes every tag \<^verbatim>\<open>[...]\<close> out of the text and applies it as a
  style, and raises \<^verbatim>\<open>MarkupError\<close> at a closing tag that closes nothing. The definitions
  below follow \<^verbatim>\<open>rich/markup.py\<close> and give the text that reaches the console; the styles
  attached to it, the highlighting, and the layout of the line on the terminal (wrapping to
  its width, expansion of tabs) are not recorded. Strings are sequences of bytes, so the white space that \<^verbatim>\<open>strip\<close> removes is
  the white space of ASCII.
\<close>

definition backslash :: char where
  "backslash = CHR 0x5C"

text \<open>
  A tag is what \<^verbatim>\<open>RE_TAGS\<close>, the expression \<^verbatim>\<open>((\\*)\[([a-z#/@][^[]*?)])\<close>, matches: any
  number of backslashes, an opening bracket, one of the characters \<^verbatim>\<open>a-z # / @\<close>, then as few
  characters other than an opening bracket as possible up to a closing bracket.
  \<open>tag_at s\<close> looks for the text of a tag at the head of \<open>s\<close>, the string after the opening
  bracket, and returns it with what follows the closing bracket.
\<close>

definition tag_start :: "char \<Rightarrow> bool" where
  "tag_start c = (c \<in> set ''abcdefghijklmnopqrstuvwxyz#/@'')"

fun tag_rest :: "string \<Rightarrow> (string \<times> string) option" where
  "tag_rest [] = None"
| "tag_rest (c # cs) =
     (if c = CHR ''['' then None
      else if c = CHR '']'' then Some ([], cs)
      else (case tag_rest cs of None \<Rightarrow> None | Some (t, r) \<Rightarrow> Some (c # t, r)))"

definition tag_at :: "string \<Rightarrow> (string \<times> string) option" where
  "tag_at s =
     (case s of
        [] \<Rightarrow> None
      | c # cs \<Rightarrow>
          if tag_start c
          then (case tag_rest cs of None \<Rightarrow> None | Some (t, r) \<Rightarrow> Some (c # t, r))
          else None)"

text \<open>\<^verbatim>\<open>tag_text.partition("=")\<close>: the name of a tag and its parameters, if it has any.\<close>

definition partition_eq :: "string \<Rightarrow> string \<times> string option" where
  "partition_eq t =
     (takeWhile (\<lambda>c. c \<noteq> CHR ''='') t,
      if CHR ''='' \<in> set t then Some (drop 1 (dropWhile (\<lambda>c. c \<noteq> CHR ''='') t)) else None)"

text \<open>
  \<^verbatim>\<open>_parse\<close> cuts the markup into pieces of text and tags. \<open>pieces skip acc s\<close> goes through
  the rest \<open>s\<close> of the markup with the text \<open>acc\<close> gathered since the last match; \<open>skip\<close>
  counts the characters of \<open>s\<close> that belong to the match just found. At a match the text
  before it is yielded if it is not empty; of the backslashes before the bracket every two
  stand for one backslash of text, and a remaining odd one escapes the tag, which is then
  text as well.
\<close>

datatype piece = Plain string | Tag string "string option"

definition yield_text :: "string \<Rightarrow> piece list" where
  "yield_text s = (if s = [] then [] else [Plain s])"

fun pieces :: "nat \<Rightarrow> string \<Rightarrow> string \<Rightarrow> piece list" where
  "pieces skip acc [] = yield_text acc"
| "pieces (Suc skip) acc (c # cs) = pieces skip acc cs"
| "pieces 0 acc (c # cs) =
     (let escapes = length (takeWhile (\<lambda>x. x = backslash) (c # cs))
      in case drop escapes (c # cs) of
           [] \<Rightarrow> pieces 0 (acc @ [c]) cs
         | b # rest \<Rightarrow>
             (case (if b = CHR ''['' then tag_at rest else None) of
                None \<Rightarrow> pieces 0 (acc @ [c]) cs
              | Some (tag_text, after) \<Rightarrow>
                  yield_text acc @
                  yield_text (replicate (escapes div 2) backslash) @
                  (if escapes mod 2 = 1 then [Plain (''['' @ tag_text @ '']'')]
                   else (case partition_eq tag_text of (name, parameters) \<Rightarrow> [Tag name parameters])) @
                  pieces (escapes + length tag_text + 1) [] cs))"

definition parse :: "string \<Rightarrow> piece list" where
  "parse markup = pieces 0 [] markup"

text \<open>\<^verbatim>\<open>plain_text.replace("\\[", "[")\<close>, and \<^verbatim>\<open>strip()\<close>.\<close>

fun unescape :: "string \<Rightarrow> string" where
  "unescape (a # b # cs) =
     (if a = backslash \<and> b = CHR ''['' then CHR ''['' # unescape cs else a # unescape (b # cs))"
| "unescape cs = cs"

definition is_space :: "char \<Rightarrow> bool" where
  "is_space c =
     (c \<in> {CHR 0x09, CHR 0x0A, CHR 0x0B, CHR 0x0C, CHR 0x0D, CHR 0x1C, CHR 0x1D, CHR 0x1E,
            CHR 0x1F, CHR 0x20})"

definition strip :: "string \<Rightarrow> string" where
  "strip s = rev (dropWhile is_space (rev (dropWhile is_space s)))"

text \<open>
  The stack of open tags, the innermost first: \<^verbatim>\<open>style_stack.pop()\<close> for the closing tag
  \<^verbatim>\<open>[/]\<close> and \<^verbatim>\<open>pop_style(style_name)\<close> for a closing tag with a name, which takes out the
  innermost open tag of that name. \<open>None\<close> stands for the \<^verbatim>\<open>IndexError\<close> and \<^verbatim>\<open>KeyError\<close>
  that \<^verbatim>\<open>render\<close> turns into a \<^verbatim>\<open>MarkupError\<close>.
\<close>

type_synonym tag = "string \<times> string option"

definition pop :: "tag list \<Rightarrow> (tag \<times> tag list) option" where
  "pop style_stack = (case style_stack of [] \<Rightarrow> None | t # ts \<Rightarrow> Some (t, ts))"

fun pop_style :: "string \<Rightarrow> tag list \<Rightarrow> (tag \<times> tag list) option" where
  "pop_style style_name [] = None"
| "pop_style style_name (t # ts) =
     (if fst t = style_name then Some (t, ts)
      else (case pop_style style_name ts of None \<Rightarrow> None | Some (x, r) \<Rightarrow> Some (x, t # r)))"

text \<open>
  The loop of \<^verbatim>\<open>render\<close> over the pieces: a piece of text is appended, a tag is pushed
  or closes an open tag. Closing a \<^verbatim>\<open>@\<close> tag evaluates its parameters, which may fail.
\<close>

fun render_pieces :: "world \<Rightarrow> piece list \<Rightarrow> string \<Rightarrow> tag list \<Rightarrow> exn + string" where
  "render_pieces w [] text style_stack = Inr text"
| "render_pieces w (Plain plain_text # ps) text style_stack =
     render_pieces w ps (text @ rich_plain w (unescape plain_text)) style_stack"
| "render_pieces w (Tag name parameters # ps) text style_stack =
     (if take 1 name = ''/'' then
        (case (let style_name = strip (drop 1 name)
               in if style_name \<noteq> [] then pop_style (rich_normalize w style_name) style_stack
                  else pop style_stack) of
           None \<Rightarrow> Inl MarkupError
         | Some ((open_name, open_parameters), style_stack') \<Rightarrow>
             if take 1 open_name = ''@'' \<and>
                (case open_parameters of None \<Rightarrow> False
                 | Some p \<Rightarrow> p \<noteq> [] \<and> \<not> rich_handler_ok w p)
             then Inl MarkupError
             else render_pieces w ps text style_stack')
      else render_pieces w ps text ((rich_normalize w name, parameters) # style_stack))"

text \<open>
  \<^verbatim>\<open>render\<close>. A markup without any opening bracket is one piece of text, so the shortcut
  that \<^verbatim>\<open>render\<close> takes for it gives the same text as the loop.
\<close>

definition render :: "world \<Rightarrow> string \<Rightarrow> exn + string" where
  "render w markup = render_pieces w (parse markup) [] []"

text \<open>\<^verbatim>\<open>self.cls.print(markup)\<close>: the markup is rendered and its text reaches the console.\<close>

definition console_print :: "string \<Rightarrow> world \<Rightarrow> exn + world" where
  "console_print markup w =
     and_then (render w markup) (\<lambda>text. Inr (w\<lparr>console := console w @ [text]\<rparr>))"

section \<open>The Logger\<close>

record Logger =
  write_to_file :: bool
  prefix :: string
  short_timestamp :: bool
  in_dir :: bool
  path_prefix :: string
  session :: bool
  log_file_path :: string
  log_list :: "string list"
  log_list_to_send :: "string list"

definition open_log_file :: "Logger \<Rightarrow> open_mode \<Rightarrow> world \<Rightarrow> exn + world" where
  "open_log_file self mode w = open_file (log_file_path self) mode w"

text \<open>
  The formatting part of \<^verbatim>\<open>_make_timestamp_string\<close>, applied to the reading \<open>d\<close> of the
  clock: \<^verbatim>\<open>str(d).split(".")[0]\<close>, and for the short format
  \<^verbatim>\<open>":".join(timestamp.split(" ")[1].split(":")[:2])\<close>.
\<close>

definition format_timestamp :: "bool \<Rightarrow> datetime \<Rightarrow> exn + string" where
  "format_timestamp short d =
     and_then (index (split (str_datetime d) (CHR ''.'')) 0) (\<lambda>timestamp.
       if short then
         and_then (index (split timestamp (CHR '' '')) 1) (\<lambda>time_part.
           Inr (join '':'' (take 2 (split time_part (CHR '':'')))))
       else Inr timestamp)"

definition make_timestamp_string :: "Logger \<Rightarrow> world \<Rightarrow> exn + (string \<times> world)" where
  "make_timestamp_string self w =
     (case now w of (d, w') \<Rightarrow>
        and_then (format_timestamp (short_timestamp self) d) (\<lambda>ts. Inr (ts, w')))"

text \<open>The separator line that \<^verbatim>\<open>__init__\<close> writes: 23 dashes on either side of the timestamp.\<close>

definition header :: "string \<Rightarrow> string" where
  "header ts = ''-----------------------'' @ ts @ ''-----------------------'' @ [newline]"

text \<open>
  \<^verbatim>\<open>__init__\<close>. The arguments are the five options of the constructor; the console handle
  \<^verbatim>\<open>self.cls\<close> is the console of the world.
\<close>

definition Logger_init ::
  "bool \<Rightarrow> bool \<Rightarrow> bool \<Rightarrow> string \<Rightarrow> bool \<Rightarrow> world \<Rightarrow> exn + (Logger \<times> world)" where
  "Logger_init write_to_file' in_dir' session' prefix' short_timestamp' w =
     and_then
       (if in_dir' then
          if \<not> isdir (cwd w @ ''/logs'') w then
            if write_to_file' then mkdir (cwd w @ ''/logs'') w else Inr w
          else Inr w
        else Inr w)
       (\<lambda>w1.
          let path_prefix' = (if in_dir' then ''/logs'' else []);
              (log_file_path', w2) =
                (if session' then
                   (case now w1 of (d, w') \<Rightarrow>
                      (cwd w1 @ path_prefix' @ ''/log_'' @
                         replace (replace (str_datetime d) (CHR '' '') (CHR ''_''))
                           (CHR '':'') (CHR ''-'') @ ''.txt'',
                       w'))
                 else (cwd w1 @ path_prefix' @ ''/log.txt'', w1));
              self = \<lparr>write_to_file = write_to_file', prefix = prefix',
                      short_timestamp = short_timestamp', in_dir = in_dir',
                      path_prefix = path_prefix', session = session',
                      log_file_path = log_file_path', log_list = [], log_list_to_send = []\<rparr>
          in if write_to_file' then
               and_then (open_log_file self WritePlus w2) (\<lambda>w3.
                 and_then (make_timestamp_string self w3) (\<lambda>(ts, w4).
                   Inr (self, file_write log_file_path' (header ts) w4)))
             else Inr (self, w2))"

text \<open>The plain line of \<^verbatim>\<open>_echo\<close> (\<^verbatim>\<open>bare_log_string\<close>), in its two forms.\<close>

definition bare_with_prefix :: "string \<Rightarrow> string \<Rightarrow> string \<Rightarrow> string \<Rightarrow> string" where
  "bare_with_prefix ts pre m_type msg =
     ''['' @ ts @ '']::['' @ pre @ '']::'' @ m_type @ ''::'' @ msg @ [newline]"

definition bare_no_prefix :: "string \<Rightarrow> string \<Rightarrow> string \<Rightarrow> string" where
  "bare_no_prefix ts m_type msg = ''['' @ ts @ '']::'' @ m_type @ ''::'' @ msg @ [newline]"

text \<open>The markup string of \<^verbatim>\<open>_echo\<close> handed to the console, in its two forms.\<close>

definition markup_with_prefix ::
  "string \<Rightarrow> string \<Rightarrow> string \<Rightarrow> string \<Rightarrow> string \<Rightarrow> string" where
  "markup_with_prefix ts pre color_code m_type msg =
     ''[gray]['' @ ts @ ''][/][red bold]::[/][green bold]['' @ pre @
     ''][/][red bold]::[/]['' @ color_code @ '']'' @ m_type @ ''[/][red bold]::[/]'' @ msg"

definition markup_no_prefix :: "string \<Rightarrow> string \<Rightarrow> string \<Rightarrow> string \<Rightarrow> string" where
  "markup_no_prefix ts color_code m_type msg =
     ''[gray]['' @ ts @ ''][/][red bold]::[/]['' @ color_code @ '']'' @ m_type @
     ''[/][red bold]::[/]'' @ msg"

definition color_code_of :: "string \<Rightarrow> string" where
  "color_code_of m_type =
     (if m_type = ''INFO'' then ''blue bold''
      else if m_type = ''ERROR'' then ''red bold''
      else if m_type = ''WARN'' then ''yellow bold''
      else if m_type = ''INIT'' then ''purple bold''
      else ''white bold'')"

text \<open>
  An exception leaves a method in the middle, and what the method has done by then stays
  done. So a method of the logger that may raise after it has changed something returns the
  exception, if it raised one, together with the logger and the world as they are at that
  moment. \<open>raising m s k\<close> runs the step \<open>m\<close>: if it raises, the method ends with that
  exception in the state \<open>s\<close>, otherwise it goes on with \<open>k\<close>.
\<close>

definition raising :: "exn + 'a \<Rightarrow> 's \<Rightarrow> ('a \<Rightarrow> exn option \<times> 's) \<Rightarrow> exn option \<times> 's" where
  "raising m s k = (case m of Inl e \<Rightarrow> (Some e, s) | Inr x \<Rightarrow> k x)"

text \<open>
  \<^verbatim>\<open>_echo\<close>: the file and the two buffers first, when enabled, then the console. A timestamp
  that fails to format has read the clock before.
\<close>

definition echo :: "string \<Rightarrow> string \<Rightarrow> Logger \<Rightarrow> world \<Rightarrow> exn option \<times> Logger \<times> world" where
  "echo msg m_type self w =
     (case (if write_to_file self then
              raising
                (if prefix self \<noteq> [] then
                   and_then (make_timestamp_string self w) (\<lambda>(ts, w1).
                     Inr (bare_with_prefix ts (prefix self) m_type msg, w1))
                 else
                   and_then (make_timestamp_string self w) (\<lambda>(ts, w1).
                     Inr (bare_no_prefix ts m_type msg, w1)))
                (self, snd (now w))
                (\<lambda>(bare_log_string, w1).
                   raising (open_log_file self AppendPlus w1) (self, w1) (\<lambda>w2.
                     (None,
                      self\<lparr>log_list := log_list self @ [bare_log_string],
                           log_list_to_send := log_list_to_send self @ [bare_log_string]\<rparr>,
                      file_write (log_file_path self) bare_log_string w2)))
            else (None, self, w)) of
        (Some e, self1, w3) \<Rightarrow> (Some e, self1, w3)
      | (None, self1, w3) \<Rightarrow>
          let color_code = color_code_of m_type
          in if prefix self1 \<noteq> [] then
               raising (make_timestamp_string self1 w3) (self1, snd (now w3)) (\<lambda>(ts, w4).
                 raising
                   (console_print
                      (markup_with_prefix ts (prefix self1) color_code m_type msg) w4)
                   (self1, w4)
                   (\<lambda>w5. (None, self1, w5)))
             else
               raising (make_timestamp_string self1 w3) (self1, snd (now w3)) (\<lambda>(ts, w4).
                 raising (console_print (markup_no_prefix ts color_code m_type msg) w4)
                   (self1, w4)
                   (\<lambda>w5. (None, self1, w5))))"

definition log :: "string \<Rightarrow> Logger \<Rightarrow> world \<Rightarrow> exn option \<times> Logger \<times> world" where
  "log msg self w = echo msg ''INFO'' self w"

definition error :: "string \<Rightarrow> Logger \<Rightarrow> world \<Rightarrow> exn option \<times> Logger \<times> world" where
  "error msg self w = echo msg ''ERROR'' self w"

definition warn :: "string \<Rightarrow> Logger \<Rightarrow> world \<Rightarrow> exn option \<times> Logger \<times> world" where
  "warn msg self w = echo msg ''WARN'' self w"

definition init :: "string \<Rightarrow> Logger \<Rightarrow> world \<Rightarrow> exn option \<times> Logger \<times> world" where
  "init msg self w = echo msg ''INIT'' self w"

text \<open>
  \<^verbatim>\<open>flush_logs\<close>. With \<^verbatim>\<open>from_start\<close> the source binds \<^verbatim>\<open>log_list_to_send\<close> to the very list
  object of \<^verbatim>\<open>log_list\<close>, copies it, and rebinds \<^verbatim>\<open>log_list_to_send\<close> to a new empty list
  before anything is appended, so no list is ever mutated while shared and lists are values
  here. The result is the copy.
\<close>

definition flush_logs :: "bool \<Rightarrow> Logger \<Rightarrow> string list \<times> Logger" where
  "flush_logs from_start self =
     (let self1 = (if from_start then self\<lparr>log_list_to_send := log_list self\<rparr> else self);
          log_list' = log_list_to_send self1
      in (log_list', self1\<lparr>log_list_to_send := []\<rparr>))"

section \<open>Sequences of calls on one Logger\<close>

datatype call = Log string | Error string | Warn string | Init string | Flush bool

fun is_leveled :: "call \<Rightarrow> bool" where
  "is_leveled (Flush b) = False"
| "is_leveled c = True"

text \<open>
  One call and what the caller gets from it: the exception it raised, or what it returned,
  which is nothing for a leveled call and the list for a flush.
\<close>

definition outcome :: "exn option \<times> Logger \<times> world \<Rightarrow> (exn + string list option) \<times> Logger \<times> world" where
  "outcome r = (case r of (None, s) \<Rightarrow> (Inr None, s) | (Some e, s) \<Rightarrow> (Inl e, s))"

fun do_call :: "call \<Rightarrow> Logger \<Rightarrow> world \<Rightarrow> (exn + string list option) \<times> Logger \<times> world" where
  "do_call (Log msg) self w = outcome (log msg self w)"
| "do_call (Error msg) self w = outcome (error msg self w)"
| "do_call (Warn msg) self w = outcome (warn msg self w)"
| "do_call (Init msg) self w = outcome (init msg self w)"
| "do_call (Flush from_start) self w =
     (case flush_logs from_start self of (r, self1) \<Rightarrow> (Inr (Some r), self1, w))"

text \<open>
  A client making calls one after the other, which catches the exception of a call and goes
  on with the next. The result lists what each call returned or raised, in order.
\<close>

fun run ::
  "call list \<Rightarrow> Logger \<Rightarrow> world \<Rightarrow> (exn + string list option) list \<times> Logger \<times> world" where
  "run [] self w = ([], self, w)"
| "run (c # cs) self w =
     (case do_call c self w of (r, self1, w1) \<Rightarrow>
        (case run cs self1 w1 of (rs, self2, w2) \<Rightarrow> (r # rs, self2, w2)))"


section \<open>Notions of the specification\<close>

text \<open>
  The definitions of this section are not taken from the source: they say, in the words of
  the specification, what the operations are expected to produce, and the theorems below
  relate them to the definitions above.
\<close>

subsection \<open>Timestamps\<close>

definition is_digit :: "char \<Rightarrow> bool" where
  "is_digit c = (c \<in> set ''0123456789'')"

text \<open>
  A string matches a pattern such as \<open>HH:MM\<close> when it has a decimal digit wherever the pattern
  has one of the letters \<open>Y\<close>, \<open>M\<close>, \<open>D\<close>, \<open>H\<close>, \<open>S\<close> and the pattern's own character elsewhere.
\<close>

fun matches_pattern :: "string \<Rightarrow> string \<Rightarrow> bool" where
  "matches_pattern [] [] = True"
| "matches_pattern (p # ps) (c # cs) =
     ((if p \<in> set ''YMDHS'' then is_digit c else c = p) \<and> matches_pattern ps cs)"
| "matches_pattern ps cs = False"

text \<open>
  The timestamp of a reading as the specification describes it: hour and minute in the short
  format, date and time to the second in the full one, the microseconds left out.
\<close>

definition rendered_timestamp :: "bool \<Rightarrow> datetime \<Rightarrow> string" where
  "rendered_timestamp short d =
     (if short then zpad 2 (hour d) @ '':'' @ zpad 2 (minute d)
      else str_date d @ '' '' @ str_time d)"

subsection \<open>Lines\<close>

text \<open>
  The plain line: \<open>[timestamp]\<close>, the prefix in brackets when it is not empty, the level tag
  and the message, joined by \<open>::\<close>, with a newline.
\<close>

definition plain_line :: "string \<Rightarrow> string \<Rightarrow> string \<Rightarrow> string \<Rightarrow> string" where
  "plain_line ts pre tag msg =
     ''['' @ ts @ '']'' @ ''::'' @ (if pre = [] then [] else ''['' @ pre @ '']'' @ ''::'') @
     tag @ ''::'' @ msg @ [newline]"

text \<open>The markup string an emit hands to the console, for either form of the prefix.\<close>

definition console_line :: "string \<Rightarrow> string \<Rightarrow> string \<Rightarrow> string \<Rightarrow> string" where
  "console_line ts pre m_type msg =
     (if pre \<noteq> [] then markup_with_prefix ts pre (color_code_of m_type) m_type msg
      else markup_no_prefix ts (color_code_of m_type) m_type msg)"





text \<open>
  What printing a markup does: the exception it raises, if any, and the console after it.
\<close>

definition printed :: "world \<Rightarrow> string \<Rightarrow> exn option \<times> string list" where
  "printed w markup =
     (case render w markup of
        Inl e \<Rightarrow> (Some e, console w)
      | Inr text \<Rightarrow> (None, console w @ [text]))"

subsection \<open>Construction\<close>

text \<open>
  The path a logger resolves to in a world, and the header line its construction writes. In
  session mode the file name takes the first reading of the clock and the header the second.
\<close>

definition session_file_name :: "datetime \<Rightarrow> string" where
  "session_file_name d =
     ''/log_'' @ replace (replace (str_datetime d) (CHR '' '') (CHR ''_'')) (CHR '':'') (CHR ''-'') @
     ''.txt''"

definition resolved_path :: "bool \<Rightarrow> bool \<Rightarrow> world \<Rightarrow> string" where
  "resolved_path in_dir' session' w =
     cwd w @ (if in_dir' then ''/logs'' else []) @
     (if session' then session_file_name (clock w (ticks w)) else ''/log.txt'')"

definition header_of :: "bool \<Rightarrow> bool \<Rightarrow> world \<Rightarrow> string" where
  "header_of session' short w =
     header (rendered_timestamp short (clock w (ticks w + (if session' then 1 else 0))))"

subsection \<open>Runs of calls\<close>

text \<open>A logger is ready in a world when its file, if it writes one, can be opened there.\<close>

definition ready :: "Logger \<Rightarrow> world \<Rightarrow> bool" where
  "ready self w = (write_to_file self \<longrightarrow> can_open (log_file_path self) w)"

fun tag_of :: "call \<Rightarrow> string" where
  "tag_of (Log msg) = ''INFO''"
| "tag_of (Error msg) = ''ERROR''"
| "tag_of (Warn msg) = ''WARN''"
| "tag_of (Init msg) = ''INIT''"
| "tag_of (Flush b) = []"

fun msg_of :: "call \<Rightarrow> string" where
  "msg_of (Log msg) = msg"
| "msg_of (Error msg) = msg"
| "msg_of (Warn msg) = msg"
| "msg_of (Init msg) = msg"
| "msg_of (Flush b) = []"

text \<open>
  The lines the leveled calls of \<open>cs\<close> are expected to log, in call order, when the clock has
  been read \<open>t\<close> times before: one line per leveled call, none per flush. With a file a
  leveled call reads the clock twice, for the plain line and then for the console line, so
  the next line takes the reading two further on.
\<close>

fun expected_lines :: "bool \<Rightarrow> string \<Rightarrow> (nat \<Rightarrow> datetime) \<Rightarrow> nat \<Rightarrow> call list \<Rightarrow> string list" where
  "expected_lines short pre clk t [] = []"
| "expected_lines short pre clk t (c # cs) =
     (if is_leveled c
      then plain_line (rendered_timestamp short (clk t)) pre (tag_of c) (msg_of c) #
           expected_lines short pre clk (t + 2) cs
      else expected_lines short pre clk t cs)"

definition logged_lines :: "Logger \<Rightarrow> world \<Rightarrow> call list \<Rightarrow> string list" where
  "logged_lines self w cs =
     (if write_to_file self
      then expected_lines (short_timestamp self) (prefix self) (clock w) (ticks w) cs
      else [])"

definition reads_per_call :: "Logger \<Rightarrow> nat" where
  "reads_per_call self = (if write_to_file self then 2 else 1)"

text \<open>
  Of what the calls of a run returned or raised: the lists that its flushes returned, and
  the exceptions that its calls raised, both in call order.
\<close>

fun flushed :: "(exn + string list option) list \<Rightarrow> string list list" where
  "flushed [] = []"
| "flushed (Inr (Some x) # rs) = x # flushed rs"
| "flushed (r # rs) = flushed rs"

fun raised :: "(exn + string list option) list \<Rightarrow> exn list" where
  "raised [] = []"
| "raised (Inl e # rs) = e # raised rs"
| "raised (r # rs) = raised rs"

text \<open>What no call changes: the options and path of the logger; the directory, clock and directories of the world.\<close>

definition same_config :: "Logger \<Rightarrow> Logger \<Rightarrow> bool" where
  "same_config a b =
     (write_to_file b = write_to_file a \<and> prefix b = prefix a \<and>
      short_timestamp b = short_timestamp a \<and> in_dir b = in_dir a \<and>
      path_prefix b = path_prefix a \<and> session b = session a \<and>
      log_file_path b = log_file_path a)"

definition same_env :: "world \<Rightarrow> world \<Rightarrow> bool" where
  "same_env w w' = (cwd w' = cwd w \<and> clock w' = clock w \<and> dirs w' = dirs w)"

text \<open>
  A sequence of calls splits at its last flush: the calls up to and including it, and the
  leveled calls made since.
\<close>

definition since_last_flush :: "call list \<Rightarrow> call list" where
  "since_last_flush cs = rev (takeWhile is_leveled (rev cs))"

definition before_last_flush :: "call list \<Rightarrow> call list" where
  "before_last_flush cs = rev (dropWhile is_leveled (rev cs))"

subsection \<open>A sample world\<close>

text \<open>
  A clock that advances by one second at every reading, a working directory \<open>/home/app\<close>
  without files, a console whose Rich leaves every text and every tag name as it is, and the
  loggers and worlds that constructions leave there.
\<close>

definition demo_clock :: "nat \<Rightarrow> datetime" where
  "demo_clock n = \<lparr>year = 2024, month = 1, day = 1, hour = 10, minute = 0,
                    second = n mod 60, microsecond = 250000\<rparr>"

definition demo_world :: world where
  "demo_world = \<lparr>cwd = ''/home/app'', clock = demo_clock, ticks = 0,
                  dirs = {''/home/app''}, files = Map.empty, console = [],
                  rich_plain = (\<lambda>s. s), rich_normalize = (\<lambda>s. s),
                  rich_handler_ok = (\<lambda>s. True)\<rparr>"

definition demo_logger :: "bool \<Rightarrow> Logger" where
  "demo_logger short = \<lparr>write_to_file = False, prefix = [], short_timestamp = short, in_dir = False,
      path_prefix = [], session = False, log_file_path = ''/home/app/log.txt'',
      log_list = [], log_list_to_send = []\<rparr>"

definition demo_file_logger :: Logger where
  "demo_file_logger = \<lparr>write_to_file = True, prefix = ''APP'', short_timestamp = False,
      in_dir = False, path_prefix = [], session = False, log_file_path = ''/home/app/log.txt'',
      log_list = [], log_list_to_send = []\<rparr>"

definition demo_header :: string where
  "demo_header = header ''2024-01-01 10:00:00''"

definition demo_world_1 :: world where
  "demo_world_1 = demo_world\<lparr>ticks := 1, files := [''/home/app/log.txt'' \<mapsto> demo_header]\<rparr>"

definition demo_dir_logger :: Logger where
  "demo_dir_logger = \<lparr>write_to_file = True, prefix = ''APP'', short_timestamp = False,
      in_dir = True, path_prefix = ''/logs'', session = False,
      log_file_path = ''/home/app/logs/log.txt'', log_list = [], log_list_to_send = []\<rparr>"

definition demo_world_2 :: world where
  "demo_world_2 = demo_world_1\<lparr>ticks := 2, dirs := {''/home/app/logs'', ''/home/app''},
      files := [''/home/app/log.txt'' \<mapsto> demo_header,
                ''/home/app/logs/log.txt'' \<mapsto> header ''2024-01-01 10:00:01'']\<rparr>"

section \<open>Auxiliary facts\<close>

subsection \<open>Sequencing\<close>

lemma and_then_Inr: "and_then (Inr x) f = f x"
  by (simp add: and_then_def)

lemma and_then_Inl: "and_then (Inl e) f = Inl e"
  by (simp add: and_then_def)

subsection \<open>Decimal numbers and the timestamp\<close>

text \<open>
  \<open>_make_timestamp_string\<close> never raises: \<open>str\<close> of a reading always has its date, one
  space and its time before any dot, so both indexings are in range.
\<close>

lemma is_digit_digit_char: "is_digit (digit_char d)"
proof -
  have "d mod 10 < length ''0123456789''" by simp
  then have "''0123456789'' ! (d mod 10) \<in> set ''0123456789''" by (rule nth_mem)
  then show ?thesis by (simp only: is_digit_def digit_char_def)
qed

lemma str_nat_digits: "\<forall>c \<in> set (str_nat n). is_digit c"
proof (induction n rule: str_nat.induct)
  case (1 n)
  show ?case
  proof (cases "n < 10")
    case True
    then show ?thesis by (subst str_nat.simps) (simp add: is_digit_digit_char)
  next
    case False
    with 1 show ?thesis by (subst str_nat.simps) (simp add: is_digit_digit_char)
  qed
qed

lemma is_digit_zero: "is_digit (CHR ''0'')"
  by (simp add: is_digit_def)

lemma zpad_digits: "\<forall>c \<in> set (zpad w n). is_digit c"
  using str_nat_digits [of n] by (auto simp: zpad_def is_digit_zero)

lemma length_str_nat_10: "n < 10 \<Longrightarrow> length (str_nat n) = 1"
  by (subst str_nat.simps) simp

lemma length_str_nat_100: "n < 100 \<Longrightarrow> length (str_nat n) \<le> 2"
  using length_str_nat_10 [of "n div 10"] by (subst str_nat.simps) simp

lemma length_str_nat_1000: "n < 1000 \<Longrightarrow> length (str_nat n) \<le> 3"
  using length_str_nat_100 [of "n div 10"] by (subst str_nat.simps) simp

lemma length_str_nat_10000: "n < 10000 \<Longrightarrow> length (str_nat n) \<le> 4"
  using length_str_nat_1000 [of "n div 10"] by (subst str_nat.simps) simp

lemma length_zpad: "length (str_nat n) \<le> w \<Longrightarrow> length (zpad w n) = w"
  by (simp add: zpad_def)

lemma split_no_sep: "sep \<notin> set xs \<Longrightarrow> split xs sep = [xs]"
  by (induction xs) auto

lemma split_at_first: "sep \<notin> set xs \<Longrightarrow> split (xs @ sep # ys) sep = xs # split ys sep"
  by (induction xs) auto

lemma not_digit_seps:
  "\<not> is_digit (CHR ''.'')" "\<not> is_digit (CHR '' '')" "\<not> is_digit (CHR '':'')" "\<not> is_digit (CHR ''-'')"
  by (simp_all add: is_digit_def)

lemma zpad_no_sep: "\<not> is_digit sep \<Longrightarrow> sep \<notin> set (zpad w n)"
  using zpad_digits [of w n] by auto

lemma str_date_no_sep: "\<not> is_digit sep \<Longrightarrow> sep \<noteq> CHR ''-'' \<Longrightarrow> sep \<notin> set (str_date d)"
  by (simp add: str_date_def zpad_no_sep)

lemma str_time_no_sep: "\<not> is_digit sep \<Longrightarrow> sep \<noteq> CHR '':'' \<Longrightarrow> sep \<notin> set (str_time d)"
  by (simp add: str_time_def zpad_no_sep)

lemma split_str_datetime_dot:
  "index (split (str_datetime d) (CHR ''.'')) 0 = Inr (str_date d @ '' '' @ str_time d)"
proof -
  let ?s = "str_date d @ '' '' @ str_time d"
  have no: "CHR ''.'' \<notin> set ?s"
    by (simp add: str_date_no_sep str_time_no_sep not_digit_seps)
  show ?thesis
  proof (cases "microsecond d = 0")
    case True
    then have "str_datetime d = ?s" by (simp add: str_datetime_def)
    then show ?thesis using split_no_sep [OF no] by (simp add: index_def)
  next
    case False
    then have "str_datetime d = ?s @ CHR ''.'' # zpad 6 (microsecond d)"
      by (simp add: str_datetime_def)
    then show ?thesis using split_at_first [OF no] by (simp add: index_def)
  qed
qed

lemma format_timestamp_full:
  "format_timestamp False d = Inr (str_date d @ '' '' @ str_time d)"
  by (simp add: format_timestamp_def split_str_datetime_dot and_then_def)

lemma split_date_time_space:
  "split (str_date d @ CHR '' '' # str_time d) (CHR '' '') = [str_date d, str_time d]"
proof -
  have "CHR '' '' \<notin> set (str_date d)" by (simp add: str_date_no_sep not_digit_seps)
  moreover have "CHR '' '' \<notin> set (str_time d)" by (simp add: str_time_no_sep not_digit_seps)
  ultimately show ?thesis
    using split_at_first [of "CHR '' ''" "str_date d" "str_time d"] by (simp add: split_no_sep)
qed

lemma split_str_time_colon:
  "split (str_time d) (CHR '':'') = [zpad 2 (hour d), zpad 2 (minute d), zpad 2 (second d)]"
proof -
  have c: "CHR '':'' \<notin> set (zpad 2 n)" for n by (simp add: zpad_no_sep not_digit_seps)
  have "split (str_time d) (CHR '':'') =
        zpad 2 (hour d) # split (zpad 2 (minute d) @ CHR '':'' # zpad 2 (second d)) (CHR '':'')"
    using split_at_first [OF c, of "hour d"] by (simp add: str_time_def)
  also have "split (zpad 2 (minute d) @ CHR '':'' # zpad 2 (second d)) (CHR '':'') =
        zpad 2 (minute d) # split (zpad 2 (second d)) (CHR '':'')"
    using split_at_first [OF c, of "minute d"] by simp
  also have "split (zpad 2 (second d)) (CHR '':'') = [zpad 2 (second d)]"
    using split_no_sep [OF c] by simp
  finally show ?thesis .
qed

lemma index_second: "index [a, b] (Suc 0) = Inr b"
  by (simp add: index_def)

lemma format_timestamp_short:
  "format_timestamp True d = Inr (zpad 2 (hour d) @ '':'' @ zpad 2 (minute d))"
  by (simp add: format_timestamp_def split_str_datetime_dot and_then_def
      split_date_time_space index_second split_str_time_colon)

lemma list_of_length_2: "length xs = Suc (Suc 0) \<Longrightarrow> \<exists>a b. xs = [a, b]"
  by (auto simp: length_Suc_conv)

lemma list_of_length_4:
  "length xs = Suc (Suc (Suc (Suc 0))) \<Longrightarrow> \<exists>a b c e. xs = [a, b, c, e]"
  by (auto simp: length_Suc_conv)

lemma zpad2_shape:
  assumes "n < 100"
  shows "\<exists>a b. zpad 2 n = [a, b] \<and> is_digit a \<and> is_digit b"
proof -
  have "length (zpad 2 n) = Suc (Suc 0)"
    using assms length_zpad [OF length_str_nat_100, of n] by simp
  then obtain a b where ab: "zpad 2 n = [a, b]"
    using list_of_length_2 by blast
  then show ?thesis using zpad_digits [of 2 n] by simp
qed

lemma zpad4_shape:
  assumes "n < 10000"
  shows "\<exists>a b c e. zpad 4 n = [a, b, c, e] \<and> is_digit a \<and> is_digit b \<and> is_digit c \<and> is_digit e"
proof -
  have "length (zpad 4 n) = Suc (Suc (Suc (Suc 0)))"
    using assms length_zpad [OF length_str_nat_10000, of n] by simp
  then obtain a b c e where "zpad 4 n = [a, b, c, e]"
    using list_of_length_4 by blast
  then show ?thesis using zpad_digits [of 4 n] by simp
qed

lemma short_matches:
  assumes "valid_datetime d"
  shows "matches_pattern ''HH:MM'' (zpad 2 (hour d) @ '':'' @ zpad 2 (minute d))"
proof -
  from assms have "hour d < 100" "minute d < 100" by (simp_all add: valid_datetime_def)
  then obtain a b c e where "zpad 2 (hour d) = [a, b]" "is_digit a" "is_digit b"
    "zpad 2 (minute d) = [c, e]" "is_digit c" "is_digit e"
    using zpad2_shape [of "hour d"] zpad2_shape [of "minute d"] by auto
  then show ?thesis by simp
qed

lemma full_matches:
  assumes "valid_datetime d"
  shows "matches_pattern ''YYYY-MM-DD HH:MM:SS'' (str_date d @ '' '' @ str_time d)"
proof -
  from assms have b: "year d < 10000" "month d < 100" "day d < 100" "hour d < 100" "minute d < 100" "second d < 100"
    by (simp_all add: valid_datetime_def)
  obtain y1 y2 y3 y4 where y: "zpad 4 (year d) = [y1, y2, y3, y4]" "is_digit y1" "is_digit y2" "is_digit y3" "is_digit y4"
    using zpad4_shape [OF b(1)] by auto
  obtain m1 m2 where m: "zpad 2 (month d) = [m1, m2]" "is_digit m1" "is_digit m2"
    using zpad2_shape [OF b(2)] by auto
  obtain d1 d2 where dd: "zpad 2 (day d) = [d1, d2]" "is_digit d1" "is_digit d2"
    using zpad2_shape [OF b(3)] by auto
  obtain h1 h2 where h: "zpad 2 (hour d) = [h1, h2]" "is_digit h1" "is_digit h2"
    using zpad2_shape [OF b(4)] by auto
  obtain n1 n2 where n: "zpad 2 (minute d) = [n1, n2]" "is_digit n1" "is_digit n2"
    using zpad2_shape [OF b(5)] by auto
  obtain s1 s2 where s: "zpad 2 (second d) = [s1, s2]" "is_digit s1" "is_digit s2"
    using zpad2_shape [OF b(6)] by auto
  show ?thesis by (simp add: str_date_def str_time_def y m dd h n s)
qed

lemma format_timestamp_eq: "format_timestamp short d = Inr (rendered_timestamp short d)"
  by (cases short) (simp_all add: rendered_timestamp_def format_timestamp_short format_timestamp_full)

lemma make_timestamp_string_eq:
  "make_timestamp_string self w =
     Inr (rendered_timestamp (short_timestamp self) (clock w (ticks w)), w\<lparr>ticks := Suc (ticks w)\<rparr>)"
  by (simp add: make_timestamp_string_def now_def format_timestamp_eq and_then_def)

subsection \<open>What the console does to an emit\<close>

text \<open>
  Rendering looks at nothing in the world but the three parts of Rich, and the only
  exception it raises is \<^verbatim>\<open>MarkupError\<close>.
\<close>

lemma render_pieces_env:
  assumes "rich_plain w' = rich_plain w" and "rich_normalize w' = rich_normalize w"
    and "rich_handler_ok w' = rich_handler_ok w"
  shows "render_pieces w' ps tx st = render_pieces w ps tx st"
proof (induction ps arbitrary: tx st)
  case Nil
  show ?case by simp
next
  case (Cons p ps)
  show ?case
  proof (cases p)
    case (Plain s)
    then show ?thesis by (simp add: Cons.IH assms)
  next
    case (Tag name parameters)
    then show ?thesis
      by (simp add: Cons.IH assms Let_def cong: option.case_cong prod.case_cong if_cong)
  qed
qed

lemma render_env:
  assumes "rich_plain w' = rich_plain w" and "rich_normalize w' = rich_normalize w"
    and "rich_handler_ok w' = rich_handler_ok w"
  shows "render w' markup = render w markup"
  by (simp add: render_def render_pieces_env [OF assms])

lemma render_pieces_error: "render_pieces w ps tx st = Inl e \<Longrightarrow> e = MarkupError"
proof (induction ps arbitrary: tx st)
  case Nil
  then show ?case by simp
next
  case (Cons p ps)
  show ?case
  proof (cases p)
    case (Plain s)
    with Cons show ?thesis by simp
  next
    case (Tag name parameters)
    with Cons.prems Cons.IH show ?thesis
      by (auto simp: Let_def split: option.splits prod.splits if_splits)
  qed
qed

lemma printed_error: "fst (printed w markup) = None \<or> fst (printed w markup) = Some MarkupError"
proof (cases "render w markup")
  case (Inl e)
  then have "e = MarkupError" by (simp add: render_def render_pieces_error)
  with Inl show ?thesis by (simp add: printed_def)
next
  case (Inr t)
  then show ?thesis by (simp add: printed_def)
qed

lemma printed_console:
  "snd (printed w markup) = console w \<or> (\<exists>text. snd (printed w markup) = console w @ [text])"
  by (cases "render w markup") (simp_all add: printed_def)

lemma raising_Inr: "raising (Inr x) s k = k x"
  by (simp add: raising_def)

lemma raising_Inl: "raising (Inl e) s k = (Some e, s)"
  by (simp add: raising_def)

lemma console_print_eq:
  assumes "rich_plain w' = rich_plain w" and "rich_normalize w' = rich_normalize w"
    and "rich_handler_ok w' = rich_handler_ok w" and "console w' = console w"
  shows "raising (console_print markup w') (self, w') (\<lambda>w5. (None, self, w5)) =
         (fst (printed w markup), self, w'\<lparr>console := snd (printed w markup)\<rparr>)"
proof (cases "render w markup")
  case (Inl e)
  then show ?thesis
    using assms(4)
    by (simp add: raising_def console_print_def and_then_Inl printed_def render_env [OF assms(1-3)])
next
  case (Inr t)
  then show ?thesis
    using assms(4)
    by (simp add: raising_def console_print_def and_then_Inr printed_def render_env [OF assms(1-3)])
qed

subsection \<open>One emit\<close>

text \<open>
  An emit of a logger that writes a file logs its line exactly when the file can be opened;
  whether the console raises afterwards changes nothing in what has been logged.
\<close>

lemma open_file_eq:
  "can_open p w \<Longrightarrow> open_file p mode w =
     Inr (case mode of WritePlus \<Rightarrow> w\<lparr>files := (files w)(p \<mapsto> [])\<rparr>
          | AppendPlus \<Rightarrow> w\<lparr>files := (files w)(p \<mapsto> file_content p w)\<rparr>)"
  by (simp add: open_file_def can_open_def)

lemma open_file_fails: "\<not> can_open p w \<Longrightarrow> \<exists>e. open_file p mode w = Inl e"
  by (auto simp add: open_file_def can_open_def)

lemma echo_file:
  assumes "write_to_file self" and "can_open (log_file_path self) w"
  shows "echo msg m_type self w =
    (fst (printed w (console_line
            (rendered_timestamp (short_timestamp self) (clock w (Suc (ticks w))))
            (prefix self) m_type msg)),
     self\<lparr>log_list := log_list self @
                 [plain_line (rendered_timestamp (short_timestamp self) (clock w (ticks w)))
                    (prefix self) m_type msg],
              log_list_to_send := log_list_to_send self @
                 [plain_line (rendered_timestamp (short_timestamp self) (clock w (ticks w)))
                    (prefix self) m_type msg]\<rparr>,
     w\<lparr>ticks := Suc (Suc (ticks w)),
       files := (files w)(log_file_path self \<mapsto> file_content (log_file_path self) w @
                 plain_line (rendered_timestamp (short_timestamp self) (clock w (ticks w)))
                    (prefix self) m_type msg),
       console := snd (printed w (console_line
            (rendered_timestamp (short_timestamp self) (clock w (Suc (ticks w))))
            (prefix self) m_type msg))\<rparr>)"
proof -
  have c: "can_open (log_file_path self) (w\<lparr>ticks := Suc (ticks w)\<rparr>)"
    using assms(2) by (simp add: can_open_def)
  show ?thesis
    using assms(1)
    by (simp add: echo_def make_timestamp_string_eq and_then_Inr raising_Inr open_log_file_def
        open_file_eq [OF c] file_write_def file_content_def Let_def
        console_print_eq [where w = w]
        console_line_def plain_line_def bare_with_prefix_def bare_no_prefix_def)
qed

lemma echo_console_only:
  assumes "\<not> write_to_file self"
  shows "echo msg m_type self w =
    (fst (printed w (console_line
            (rendered_timestamp (short_timestamp self) (clock w (ticks w)))
            (prefix self) m_type msg)),
     self,
     w\<lparr>ticks := Suc (ticks w),
       console := snd (printed w (console_line
            (rendered_timestamp (short_timestamp self) (clock w (ticks w)))
            (prefix self) m_type msg))\<rparr>)"
  using assms
  by (simp add: echo_def make_timestamp_string_eq raising_Inr Let_def
      console_print_eq [where w = w] console_line_def)

subsection \<open>One call\<close>

lemma outcome_eq:
  "outcome (x, self, w) = ((case x of None \<Rightarrow> Inr None | Some e \<Rightarrow> Inl e), self, w)"
  by (cases x) (simp_all add: outcome_def)

lemma do_call_leveled:
  assumes "is_leveled c"
  shows "do_call c self w = outcome (echo (msg_of c) (tag_of c) self w)"
  using assms by (cases c) (simp_all add: log_def error_def warn_def init_def)

lemma logged_lines_Nil: "logged_lines self w [] = []"
  by (simp add: logged_lines_def)

lemma same_config_refl: "same_config a a"
  by (simp add: same_config_def)

lemma same_config_trans: "same_config a b \<Longrightarrow> same_config b c \<Longrightarrow> same_config a c"
  by (simp add: same_config_def)

lemma same_env_refl: "same_env a a"
  by (simp add: same_env_def)

lemma same_env_trans: "same_env a b \<Longrightarrow> same_env b c \<Longrightarrow> same_env a c"
  by (simp add: same_env_def)

lemma do_call_step:
  assumes "ready self w"
  shows "\<exists>r self1 w1. do_call c self w = (r, self1, w1) \<and> ready self1 w1 \<and>
      same_config self self1 \<and> same_env w w1 \<and>
      log_list self1 = log_list self @ logged_lines self w [c] \<and>
      log_list_to_send self1 =
        (if is_leveled c then log_list_to_send self @ logged_lines self w [c] else []) \<and>
      (if is_leveled c then r = Inr None \<or> r = Inl MarkupError
       else r = Inr (Some (if c = Flush True then log_list self else log_list_to_send self))) \<and>
      ticks w1 = ticks w + (if is_leveled c then reads_per_call self else 0) \<and>
      (\<forall>p. p \<noteq> log_file_path self \<longrightarrow> files w1 p = files w p) \<and>
      (if write_to_file self
       then file_content (log_file_path self) w1 =
            file_content (log_file_path self) w @ concat (logged_lines self w [c]) \<and>
            (files w (log_file_path self) \<noteq> None \<longrightarrow> files w1 (log_file_path self) \<noteq> None)
       else files w1 = files w)"
proof (cases "is_leveled c")
  case lev: True
  show ?thesis
  proof (cases "write_to_file self")
    case True
    with assms have c: "can_open (log_file_path self) w" by (simp add: ready_def)
    let ?m = "console_line (rendered_timestamp (short_timestamp self) (clock w (Suc (ticks w))))
            (prefix self) (tag_of c) (msg_of c)"
    from printed_error [of w ?m] have
      r: "(case fst (printed w ?m) of None \<Rightarrow> Inr None | Some e \<Rightarrow> Inl e) = Inr None \<or>
          (case fst (printed w ?m) of None \<Rightarrow> Inr None | Some e \<Rightarrow> Inl e) =
            (Inl MarkupError :: exn + string list option)"
      by auto
    show ?thesis
      using lev True c r
      by (simp add: do_call_leveled [OF lev] echo_file [OF True c] outcome_eq ready_def
          can_open_def logged_lines_def reads_per_call_def file_content_def same_config_def
          same_env_def)
  next
    case False
    let ?m = "console_line (rendered_timestamp (short_timestamp self) (clock w (ticks w)))
            (prefix self) (tag_of c) (msg_of c)"
    from printed_error [of w ?m] have
      r: "(case fst (printed w ?m) of None \<Rightarrow> Inr None | Some e \<Rightarrow> Inl e) = Inr None \<or>
          (case fst (printed w ?m) of None \<Rightarrow> Inr None | Some e \<Rightarrow> Inl e) =
            (Inl MarkupError :: exn + string list option)"
      by auto
    show ?thesis
      using lev False r
      by (simp add: do_call_leveled [OF lev] echo_console_only [OF False] outcome_eq ready_def
          logged_lines_def reads_per_call_def same_config_def same_env_def)
  qed
next
  case False
  then obtain b where c: "c = Flush b" by (cases c) simp_all
  show ?thesis
    using assms
    by (simp add: c flush_logs_def Let_def ready_def logged_lines_def same_config_def same_env_def)
qed

subsection \<open>Runs\<close>

lemma run_append:
  "run (xs @ ys) self w =
     (case run xs self w of (o1, self1, w1) \<Rightarrow>
        (case run ys self1 w1 of (o2, self2, w2) \<Rightarrow> (o1 @ o2, self2, w2)))"
  by (induction xs arbitrary: self w) (auto split: prod.splits)

lemma flushed_append: "flushed (xs @ ys) = flushed xs @ flushed ys"
  by (induction xs rule: flushed.induct) simp_all

lemma raised_append: "raised (xs @ ys) = raised xs @ raised ys"
  by (induction xs rule: raised.induct) simp_all

lemma logged_lines_Cons:
  assumes "same_config self self1" and "clock w1 = clock w"
    and "ticks w1 = ticks w + (if is_leveled c then reads_per_call self else 0)"
  shows "logged_lines self w (c # cs) = logged_lines self w [c] @ logged_lines self1 w1 cs"
  using assms by (simp add: logged_lines_def same_config_def reads_per_call_def)

lemma run_ready:
  assumes "ready self w"
  shows "\<exists>rs self' w'. run cs self w = (rs, self', w') \<and> ready self' w' \<and>
      same_config self self' \<and> same_env w w' \<and>
      log_list self' = log_list self @ logged_lines self w cs \<and>
      ticks w' = ticks w + reads_per_call self * length (filter is_leveled cs) \<and>
      (\<forall>p. p \<noteq> log_file_path self \<longrightarrow> files w' p = files w p) \<and>
      (if write_to_file self
       then file_content (log_file_path self) w' =
            file_content (log_file_path self) w @ concat (logged_lines self w cs) \<and>
            (files w (log_file_path self) \<noteq> None \<longrightarrow> files w' (log_file_path self) \<noteq> None)
       else files w' = files w) \<and>
      set (raised rs) \<subseteq> {MarkupError}"
  using assms
proof (induction cs arbitrary: self w)
  case Nil
  then show ?case by (simp add: logged_lines_Nil same_config_refl same_env_refl)
next
  case (Cons c cs)
  from do_call_step [OF Cons.prems, of c] obtain r self1 w1 where
    d: "do_call c self w = (r, self1, w1)" and rd: "ready self1 w1" and
    cfg: "same_config self self1" and env: "same_env w w1" and
    l1: "log_list self1 = log_list self @ logged_lines self w [c]" and
    rr: "if is_leveled c then r = Inr None \<or> r = Inl MarkupError
       else r = Inr (Some (if c = Flush True then log_list self else log_list_to_send self))" and
    t: "ticks w1 = ticks w + (if is_leveled c then reads_per_call self else 0)" and
    f: "\<forall>p. p \<noteq> log_file_path self \<longrightarrow> files w1 p = files w p" and
    g: "if write_to_file self
       then file_content (log_file_path self) w1 =
            file_content (log_file_path self) w @ concat (logged_lines self w [c]) \<and>
            (files w (log_file_path self) \<noteq> None \<longrightarrow> files w1 (log_file_path self) \<noteq> None)
       else files w1 = files w"
    by blast
  from Cons.IH [OF rd] obtain rs self' w' where
    r: "run cs self1 w1 = (rs, self', w')" and rd': "ready self' w'" and
    cfg': "same_config self1 self'" and env': "same_env w1 w'" and
    l1': "log_list self' = log_list self1 @ logged_lines self1 w1 cs" and
    t': "ticks w' = ticks w1 + reads_per_call self1 * length (filter is_leveled cs)" and
    f': "\<forall>p. p \<noteq> log_file_path self1 \<longrightarrow> files w' p = files w1 p" and
    g': "if write_to_file self1
       then file_content (log_file_path self1) w' =
            file_content (log_file_path self1) w1 @ concat (logged_lines self1 w1 cs) \<and>
            (files w1 (log_file_path self1) \<noteq> None \<longrightarrow> files w' (log_file_path self1) \<noteq> None)
       else files w' = files w1" and
    e': "set (raised rs) \<subseteq> {MarkupError}"
    by blast
  have clk: "clock w1 = clock w" using env by (simp add: same_env_def)
  have ll: "logged_lines self w (c # cs) = logged_lines self w [c] @ logged_lines self1 w1 cs"
    by (rule logged_lines_Cons [OF cfg clk t])
  have same: "write_to_file self1 = write_to_file self" "log_file_path self1 = log_file_path self"
    "reads_per_call self1 = reads_per_call self"
    using cfg by (simp_all add: same_config_def reads_per_call_def)
  have run: "run (c # cs) self w = (r # rs, self', w')"
    by (simp add: d r)
  have a: "same_config self self'" by (rule same_config_trans [OF cfg cfg'])
  have b: "same_env w w'" by (rule same_env_trans [OF env env'])
  have c1: "log_list self' = log_list self @ logged_lines self w (c # cs)"
    by (simp add: l1' l1 ll)
  have c2: "ticks w' = ticks w + reads_per_call self * length (filter is_leveled (c # cs))"
    by (simp add: t' t same)
  have c3: "\<forall>p. p \<noteq> log_file_path self \<longrightarrow> files w' p = files w p"
    using f f' by (simp add: same)
  have c4: "if write_to_file self
       then file_content (log_file_path self) w' =
            file_content (log_file_path self) w @ concat (logged_lines self w (c # cs)) \<and>
            (files w (log_file_path self) \<noteq> None \<longrightarrow> files w' (log_file_path self) \<noteq> None)
       else files w' = files w"
    using g g' by (simp add: same ll split: if_splits)
  have c5: "set (raised (r # rs)) \<subseteq> {MarkupError}"
    using rr e' by (auto split: if_splits)
  from run rd' a b c1 c2 c3 c4 c5 show ?case by blast
qed

lemma run_leveled_pending:
  assumes "ready self w" and "\<forall>c \<in> set cs. is_leveled c"
    and "run cs self w = (rs, self', w')"
  shows "flushed rs = [] \<and> log_list_to_send self' = log_list_to_send self @ logged_lines self w cs"
  using assms
proof (induction cs arbitrary: self w rs self' w')
  case Nil
  then show ?case by (simp add: logged_lines_Nil)
next
  case (Cons c cs)
  from Cons.prems(2) have lev: "is_leveled c" and levs: "\<forall>c \<in> set cs. is_leveled c" by simp_all
  from do_call_step [OF Cons.prems(1), of c] obtain r self1 w1 where
    d: "do_call c self w = (r, self1, w1)" and rd: "ready self1 w1" and
    cfg: "same_config self self1" and env: "same_env w w1" and
    l2: "log_list_to_send self1 =
        (if is_leveled c then log_list_to_send self @ logged_lines self w [c] else [])" and
    rr: "if is_leveled c then r = Inr None \<or> r = Inl MarkupError
       else r = Inr (Some (if c = Flush True then log_list self else log_list_to_send self))" and
    t: "ticks w1 = ticks w + (if is_leveled c then reads_per_call self else 0)"
    by blast
  obtain rs1 self2 w2 where r: "run cs self1 w1 = (rs1, self2, w2)"
    by (cases "run cs self1 w1") auto
  from Cons.prems(3) have eq: "rs = r # rs1" "self' = self2" "w' = w2"
    by (simp_all add: d r)
  from Cons.IH [OF rd levs r] have ih: "flushed rs1 = []"
    "log_list_to_send self2 = log_list_to_send self1 @ logged_lines self1 w1 cs" by simp_all
  have clk: "clock w1 = clock w" using env by (simp add: same_env_def)
  have ll: "logged_lines self w (c # cs) = logged_lines self w [c] @ logged_lines self1 w1 cs"
    by (rule logged_lines_Cons [OF cfg clk t])
  have fl: "flushed (r # rs1) = []" using rr lev ih(1) by auto
  show ?case using fl by (simp add: eq ih l2 lev ll)
qed

lemma run_suffix:
  assumes "ready self w" and "\<exists>older. log_list self = older @ log_list_to_send self"
    and "run cs self w = (rs, self', w')"
  shows "(\<exists>older. log_list self' = older @ log_list_to_send self') \<and>
         (\<forall>out \<in> set (flushed rs). set out \<subseteq> set (log_list self'))"
  using assms
proof (induction cs arbitrary: self w rs self' w')
  case Nil
  then show ?case by simp
next
  case (Cons c cs)
  from do_call_step [OF Cons.prems(1), of c] obtain r self1 w1 where
    d: "do_call c self w = (r, self1, w1)" and rd: "ready self1 w1" and
    l1: "log_list self1 = log_list self @ logged_lines self w [c]" and
    l2: "log_list_to_send self1 =
        (if is_leveled c then log_list_to_send self @ logged_lines self w [c] else [])" and
    rr: "if is_leveled c then r = Inr None \<or> r = Inl MarkupError
       else r = Inr (Some (if c = Flush True then log_list self else log_list_to_send self))"
    by blast
  from Cons.prems(2) obtain older where o: "log_list self = older @ log_list_to_send self" by blast
  have inv1: "\<exists>older. log_list self1 = older @ log_list_to_send self1"
  proof (cases "is_leveled c")
    case True
    then have "log_list self1 = older @ log_list_to_send self1" using o l1 l2 by simp
    then show ?thesis by blast
  next
    case False
    then show ?thesis using l2 by simp
  qed
  from run_ready [OF rd, of cs] obtain rs1 self2 w2 where
    r: "run cs self1 w1 = (rs1, self2, w2)" and
    mono: "log_list self2 = log_list self1 @ logged_lines self1 w1 cs" by blast
  from Cons.prems(3) have eq: "rs = r # rs1" "self' = self2" "w' = w2"
    by (simp_all add: d r)
  from Cons.IH [OF rd inv1 r] have ih:
    "\<exists>older. log_list self2 = older @ log_list_to_send self2"
    "\<forall>out \<in> set (flushed rs1). set out \<subseteq> set (log_list self2)" by simp_all
  have sub: "set (log_list self) \<subseteq> set (log_list self2)" using mono l1 by auto
  have pend: "set (log_list_to_send self) \<subseteq> set (log_list self)"
  proof -
    have "set (log_list self) = set older \<union> set (log_list_to_send self)"
      by (subst o) simp
    then show ?thesis by blast
  qed
  have "\<forall>out \<in> set (flushed (r # rs1)). set out \<subseteq> set (log_list self2)"
    using ih(2) sub pend rr by (auto split: if_splits)
  with ih(1) show ?case by (simp add: eq)
qed

lemma run_ends_with_flush:
  assumes "ready self w" and "cs \<noteq> []" and "last cs = Flush b"
    and "run cs self w = (rs, self', w')"
  shows "log_list_to_send self' = []"
proof -
  from assms(2,3) have cs: "cs = butlast cs @ [Flush b]"
    by (metis append_butlast_last_id)
  obtain o1 self1 w1 where r1: "run (butlast cs) self w = (o1, self1, w1)"
    by (cases "run (butlast cs) self w") auto
  have "run (butlast cs @ [Flush b]) self w =
        (o1 @ [Inr (Some (if b then log_list self1 else log_list_to_send self1))],
         self1\<lparr>log_list_to_send := []\<rparr>, w1)"
    by (simp add: run_append r1 flush_logs_def Let_def)
  with cs assms(4) have "self' = self1\<lparr>log_list_to_send := []\<rparr>" by simp
  then show ?thesis by simp
qed

subsection \<open>Construction\<close>

lemma Logger_init_console_only:
  "Logger_init False d s p sh w =
     Inr (\<lparr>write_to_file = False, prefix = p, short_timestamp = sh, in_dir = d,
           path_prefix = (if d then ''/logs'' else []), session = s,
           log_file_path = resolved_path d s w, log_list = [], log_list_to_send = []\<rparr>,
          if s then w\<lparr>ticks := Suc (ticks w)\<rparr> else w)"
  by (simp add: Logger_init_def and_then_def Let_def now_def resolved_path_def
      session_file_name_def)

lemma Logger_init_file:
  assumes "Logger_init True d s p sh w = Inr (self, w')"
  shows "self = \<lparr>write_to_file = True, prefix = p, short_timestamp = sh, in_dir = d,
           path_prefix = (if d then ''/logs'' else []), session = s,
           log_file_path = resolved_path d s w, log_list = [], log_list_to_send = []\<rparr>"
    and "can_open (resolved_path d s w) w'"
    and "files w' (resolved_path d s w) = Some (header_of s sh w)"
    and "\<forall>q. q \<noteq> resolved_path d s w \<longrightarrow> files w' q = files w q"
    and "cwd w' = cwd w" and "clock w' = clock w" and "console w' = console w"
    and "ticks w' = ticks w + (if s then 2 else 1)"
    and "dirs w' = (if d then insert (cwd w @ ''/logs'') (dirs w) else dirs w)"
    and "rich_plain w' = rich_plain w" and "rich_normalize w' = rich_normalize w"
    and "rich_handler_ok w' = rich_handler_ok w"
proof -
  define w1 where "w1 = (if d \<and> cwd w @ ''/logs'' \<notin> dirs w
                         then w\<lparr>dirs := insert (cwd w @ ''/logs'') (dirs w)\<rparr> else w)"
  define w2 where "w2 = (if s then w1\<lparr>ticks := Suc (ticks w1)\<rparr> else w1)"
  define path where "path = resolved_path d s w"
  have first: "(if d then if \<not> isdir (cwd w @ ''/logs'') w
                 then if True then mkdir (cwd w @ ''/logs'') w else Inr w else Inr w else Inr w)
               = Inr w1"
    using assms
    by (auto simp: Logger_init_def and_then_def w1_def isdir_def mkdir_def split: if_splits)
  have w1: "cwd w1 = cwd w" "clock w1 = clock w" "ticks w1 = ticks w" "files w1 = files w"
    "console w1 = console w"
    "dirs w1 = (if d then insert (cwd w @ ''/logs'') (dirs w) else dirs w)"
    "rich_plain w1 = rich_plain w" "rich_normalize w1 = rich_normalize w"
    "rich_handler_ok w1 = rich_handler_ok w"
    by (auto simp: w1_def)
  have w2: "cwd w2 = cwd w" "clock w2 = clock w" "ticks w2 = ticks w + (if s then 1 else 0)"
    "files w2 = files w" "console w2 = console w" "dirs w2 = dirs w1"
    "rich_plain w2 = rich_plain w" "rich_normalize w2 = rich_normalize w"
    "rich_handler_ok w2 = rich_handler_ok w"
    by (simp_all add: w2_def w1)
  let ?self = "\<lparr>write_to_file = True, prefix = p, short_timestamp = sh, in_dir = d,
           path_prefix = (if d then ''/logs'' else []), session = s,
           log_file_path = path, log_list = [], log_list_to_send = []\<rparr>"
  have unfolded: "Logger_init True d s p sh w =
      and_then (open_file path WritePlus w2) (\<lambda>w3.
        and_then (make_timestamp_string ?self w3) (\<lambda>(ts, w4).
          Inr (?self, file_write path (header ts) w4)))"
    using first
    by (simp add: Logger_init_def and_then_Inr Let_def now_def w1 w2_def path_def
        resolved_path_def session_file_name_def open_log_file_def)
  have op: "can_open path w2"
  proof (rule ccontr)
    assume "\<not> can_open path w2"
    from open_file_fails [OF this] obtain e where "open_file path WritePlus w2 = Inl e" by blast
    with unfolded assms show False by (simp add: and_then_def)
  qed
  from unfolded assms have res:
    "self = ?self"
    "w' = w2\<lparr>ticks := Suc (ticks w2),
             files := (files w2)(path \<mapsto> header (rendered_timestamp sh (clock w2 (ticks w2))))\<rparr>"
    by (simp_all add: open_file_eq [OF op] and_then_def make_timestamp_string_eq
        file_write_def file_content_def)
  show "self = \<lparr>write_to_file = True, prefix = p, short_timestamp = sh, in_dir = d,
           path_prefix = (if d then ''/logs'' else []), session = s,
           log_file_path = resolved_path d s w, log_list = [], log_list_to_send = []\<rparr>"
    using res(1) by (simp add: path_def)
  show "can_open (resolved_path d s w) w'"
    using op by (simp add: res(2) can_open_def path_def)
  show "files w' (resolved_path d s w) = Some (header_of s sh w)"
    by (simp add: res(2) path_def header_of_def w2)
  show "\<forall>q. q \<noteq> resolved_path d s w \<longrightarrow> files w' q = files w q"
    by (simp add: res(2) path_def w2)
  show "cwd w' = cwd w" "clock w' = clock w" "console w' = console w"
    by (simp_all add: res(2) w2)
  show "ticks w' = ticks w + (if s then 2 else 1)"
    by (simp add: res(2) w2)
  show "dirs w' = (if d then insert (cwd w @ ''/logs'') (dirs w) else dirs w)"
    by (simp add: res(2) w2 w1)
  show "rich_plain w' = rich_plain w" "rich_normalize w' = rich_normalize w"
    "rich_handler_ok w' = rich_handler_ok w"
    by (simp_all add: res(2) w2)
qed

lemma Logger_init_file_succeeds:
  assumes "can_open (resolved_path d s w) w" and "d \<longrightarrow> cwd w @ ''/logs'' \<in> dirs w"
  shows "\<exists>self w'. Logger_init True d s p sh w = Inr (self, w')"
proof -
  let ?w2 = "if s then w\<lparr>ticks := Suc (ticks w)\<rparr> else w"
  have op: "can_open (resolved_path d s w) ?w2" using assms(1) by (cases s) (simp_all add: can_open_def)
  show ?thesis
    using assms(2) op
    by (cases s; cases d)
      (simp_all add: Logger_init_def and_then_Inr Let_def now_def isdir_def
        resolved_path_def session_file_name_def open_log_file_def open_file_def can_open_def
        make_timestamp_string_eq)
qed

lemma Logger_init_ready:
  assumes "Logger_init wtf d s p sh w = Inr (self, w')"
  shows "ready self w' \<and> log_list self = [] \<and> log_list_to_send self = [] \<and>
         write_to_file self = wtf \<and> prefix self = p \<and> short_timestamp self = sh \<and>
         log_file_path self = resolved_path d s w \<and> clock w' = clock w"
proof (cases wtf)
  case True
  with assms have a: "Logger_init True d s p sh w = Inr (self, w')" by simp
  show ?thesis
    using Logger_init_file(2) [OF a] Logger_init_file(6) [OF a] True
    by (subst (1 2 3 4 5 6 7) Logger_init_file(1) [OF a]) (simp add: ready_def)
next
  case False
  with assms show ?thesis by (auto simp: Logger_init_console_only ready_def)
qed

lemma length_expected_lines:
  "\<forall>c \<in> set cs. is_leveled c \<Longrightarrow> length (expected_lines sh p clk t cs) = length cs"
  by (induction cs arbitrary: t) simp_all

subsection \<open>The calls since the last flush\<close>

lemma split_at_last_flush: "cs = before_last_flush cs @ since_last_flush cs"
proof -
  have "before_last_flush cs @ since_last_flush cs =
        rev (takeWhile is_leveled (rev cs) @ dropWhile is_leveled (rev cs))"
    by (simp only: since_last_flush_def before_last_flush_def rev_append)
  also have "\<dots> = cs" by simp
  finally show ?thesis by simp
qed

lemma since_last_flush_leveled: "\<forall>c \<in> set (since_last_flush cs). is_leveled c"
  by (auto simp: since_last_flush_def dest: set_takeWhileD)

lemma before_last_flush_ends:
  "before_last_flush cs = [] \<or> (\<exists>b. last (before_last_flush cs) = Flush b)"
proof (cases "dropWhile is_leveled (rev cs)")
  case Nil
  then show ?thesis by (simp add: before_last_flush_def)
next
  case (Cons c rest)
  then have "\<not> is_leveled c" by (metis hd_dropWhile list.sel(1) list.distinct(1))
  then obtain b where "c = Flush b" by (cases c) simp_all
  with Cons show ?thesis by (simp add: before_last_flush_def)
qed

subsection \<open>Header and lines\<close>

lemma resolved_path_fixed:
  "resolved_path d False w = cwd w @ (if d then ''/logs'' else []) @ ''/log.txt''"
  by (simp add: resolved_path_def)

lemma expected_lines_start:
  "x \<in> set (expected_lines sh p clk t cs) \<Longrightarrow> \<exists>rest. x = CHR ''['' # rest"
  by (induction cs arbitrary: t) (auto simp: plain_line_def split: if_splits)

lemma header_not_a_line: "header ts \<notin> set (expected_lines sh p clk t cs)"
proof
  assume "header ts \<in> set (expected_lines sh p clk t cs)"
  from expected_lines_start [OF this] show False by (simp add: header_def)
qed

subsection \<open>The markup of the logger, cut into pieces\<close>

































subsection \<open>The sample world\<close>

lemma zpad_demo:
  "zpad 2 0 = ''00''" "zpad 2 (Suc 0) = ''01''" "zpad 2 10 = ''10''" "zpad 4 2024 = ''2024''"
  by (simp_all add: zpad_def str_nat.simps digit_char_def)

lemma demo_rendered_short: "rendered_timestamp True (demo_clock n) = ''10:00''"
  by (simp add: rendered_timestamp_def demo_clock_def zpad_demo)

lemma demo_rendered_full:
  "rendered_timestamp False (demo_clock 0) = ''2024-01-01 10:00:00''"
  "rendered_timestamp False (demo_clock (Suc 0)) = ''2024-01-01 10:00:01''"
  by (simp_all add: rendered_timestamp_def demo_clock_def zpad_demo str_date_def str_time_def)

lemma demo_can_open: "can_open ''/home/app/log.txt'' demo_world"
  by (simp add: can_open_def demo_world_def parent_dir_def)

lemma demo_init:
  "Logger_init True False False ''APP'' False demo_world = Inr (demo_file_logger, demo_world_1)"
proof -
  have p: "resolved_path False False demo_world = ''/home/app/log.txt''"
    by (simp add: resolved_path_def demo_world_def)
  have c: "can_open (resolved_path False False demo_world) demo_world"
    by (simp add: p demo_can_open)
  from Logger_init_file_succeeds [OF c, of "''APP''" False] obtain self w' where
    i: "Logger_init True False False ''APP'' False demo_world = Inr (self, w')" by auto
  have s: "self = demo_file_logger"
    using Logger_init_file(1) [OF i] by (simp add: demo_file_logger_def p)
  have "w' = w'\<lparr>cwd := cwd w', clock := clock w', ticks := ticks w', dirs := dirs w',
                 files := files w', console := console w', rich_plain := rich_plain w',
                 rich_normalize := rich_normalize w',
                 rich_handler_ok := rich_handler_ok w'\<rparr>" by simp
  also have "\<dots> = demo_world_1"
  proof -
    have f: "files w' = [''/home/app/log.txt'' \<mapsto> demo_header]"
    proof (rule ext)
      fix q show "files w' q = [''/home/app/log.txt'' \<mapsto> demo_header] q"
        using Logger_init_file(3) [OF i, unfolded p] Logger_init_file(4) [OF i, unfolded p]
        by (cases "q = ''/home/app/log.txt''")
          (simp_all add: header_of_def demo_header_def demo_world_def demo_rendered_full)
    qed
    show ?thesis
      using Logger_init_file(5-12) [OF i]
      by (simp add: f demo_world_1_def demo_world_def)
  qed
  finally show ?thesis using i s by simp
qed

lemma demo_rendered_full_any:
  "rendered_timestamp False (demo_clock n) = ''2024-01-01 10:00:'' @ zpad 2 (n mod 60)"
  by (simp add: rendered_timestamp_def demo_clock_def zpad_demo str_date_def str_time_def)

lemma zpad_demo_more:
  "zpad 2 2 = ''02''" "zpad 2 3 = ''03''" "zpad 2 4 = ''04''" "zpad 2 5 = ''05''"
  by (simp_all add: zpad_def str_nat.simps digit_char_def)

lemma zpad_demo_two: "zpad 2 (Suc (Suc 0)) = ''02''"
proof -
  have "Suc (Suc 0) = 2" by simp
  then show ?thesis by (simp only: zpad_demo_more)
qed



text \<open>
  What the console makes of brackets that a caller puts into a field: a prefix in lower
  case is read as a tag and leaves no text, a message that closes a tag it did not open
  makes the printing raise.
\<close>

lemma demo_lowercase_prefix:
  "render demo_world (markup_with_prefix ''10:00'' ''app'' (color_code_of ''INFO'') ''INFO'' ''ready'') =
     Inr ''[10:00]::::INFO::ready''"
  by (simp add: render_def parse_def markup_with_prefix_def color_code_of_def tag_at_def
      tag_start_def partition_eq_def backslash_def yield_text_def pop_def strip_def
      demo_world_def)

lemma demo_closing_message:
  "render demo_world (markup_no_prefix ''10:00'' (color_code_of ''INFO'') ''INFO'' ''[/]'') =
     Inl MarkupError"
  by (simp add: render_def parse_def markup_no_prefix_def color_code_of_def tag_at_def
      tag_start_def partition_eq_def backslash_def yield_text_def pop_def strip_def
      demo_world_def)

section \<open>The claims\<close>

text \<open>
  C1. An emit of a logger with \<open>write_to_file\<close> whose file can be opened writes to the end of
  the file, and appends to both buffers, exactly the line \<open>[timestamp]::[prefix]::tag::message\<close>
  with a newline, the timestamp being the one \<open>_make_timestamp_string\<close> produces at that
  moment; with the empty prefix the prefix field, its brackets and its separator are absent.
  This is so whether the console, which comes afterwards, prints the line or raises its
  \<^verbatim>\<open>MarkupError\<close>.
\<close>

theorem echo_plain_line:
  assumes "write_to_file self" and "can_open (log_file_path self) w"
  shows "\<exists>exc self' w'. echo msg m_type self w = (exc, self', w') \<and>
     (let ts = rendered_timestamp (short_timestamp self) (clock w (ticks w));
          line = ''['' @ ts @ '']'' @ ''::'' @
                 (if prefix self = [] then [] else ''['' @ prefix self @ '']'' @ ''::'') @
                 m_type @ ''::'' @ msg @ [newline]
      in files w' (log_file_path self) = Some (file_content (log_file_path self) w @ line) \<and>
         log_list self' = log_list self @ [line] \<and>
         log_list_to_send self' = log_list_to_send self @ [line] \<and>
         make_timestamp_string self w = Inr (ts, w\<lparr>ticks := ticks w + 1\<rparr>)) \<and>
     (exc = None \<or> exc = Some MarkupError)"
proof -
  let ?ts = "rendered_timestamp (short_timestamp self) (clock w (ticks w))"
  have stamp: "make_timestamp_string self w = Inr (?ts, w\<lparr>ticks := ticks w + 1\<rparr>)"
    by (simp add: make_timestamp_string_eq)
  let ?m = "console_line (rendered_timestamp (short_timestamp self) (clock w (Suc (ticks w))))
              (prefix self) m_type msg"
  have emit: "\<exists>self' w'. echo msg m_type self w = (fst (printed w ?m), self', w') \<and>
      files w' (log_file_path self) =
        Some (file_content (log_file_path self) w @ plain_line ?ts (prefix self) m_type msg) \<and>
      log_list self' = log_list self @ [plain_line ?ts (prefix self) m_type msg] \<and>
      log_list_to_send self' = log_list_to_send self @ [plain_line ?ts (prefix self) m_type msg]"
    by (simp add: echo_file [OF assms])
  then obtain self' w' where
    e: "echo msg m_type self w = (fst (printed w ?m), self', w')" and
    f: "files w' (log_file_path self) =
        Some (file_content (log_file_path self) w @ plain_line ?ts (prefix self) m_type msg)" and
    l: "log_list self' = log_list self @ [plain_line ?ts (prefix self) m_type msg]"
       "log_list_to_send self' = log_list_to_send self @ [plain_line ?ts (prefix self) m_type msg]"
    by blast
  have logged: "let ts = ?ts;
          line = ''['' @ ts @ '']'' @ ''::'' @
                 (if prefix self = [] then [] else ''['' @ prefix self @ '']'' @ ''::'') @
                 m_type @ ''::'' @ msg @ [newline]
      in files w' (log_file_path self) = Some (file_content (log_file_path self) w @ line) \<and>
         log_list self' = log_list self @ [line] \<and>
         log_list_to_send self' = log_list_to_send self @ [line] \<and>
         make_timestamp_string self w = Inr (ts, w\<lparr>ticks := ticks w + 1\<rparr>)"
    using f l stamp by (simp add: plain_line_def Let_def)
  show ?thesis
    by (rule exI [where x = "fst (printed w ?m)"], rule exI [where x = self'],
        rule exI [where x = w'], intro conjI, rule e, rule logged, rule printed_error)
qed

text \<open>
  C1 at a sample input: the example of the specification: prefix \<open>APP\<close>, an error \<open>disk full\<close>, on the logger
  and world that construction leaves.
\<close>

theorem echo_plain_line_witness:
  "write_to_file demo_file_logger \<and>
   can_open (log_file_path demo_file_logger) demo_world_1 \<and>
   (\<exists>exc self' w'. echo ''disk full'' ''ERROR'' demo_file_logger demo_world_1 = (exc, self', w') \<and>
      files w' ''/home/app/log.txt'' =
        Some (demo_header @ ''[2024-01-01 10:00:01]::[APP]::ERROR::disk full'' @ [newline]) \<and>
      log_list self' = [''[2024-01-01 10:00:01]::[APP]::ERROR::disk full'' @ [newline]] \<and>
      log_list_to_send self' = [''[2024-01-01 10:00:01]::[APP]::ERROR::disk full'' @ [newline]])"
proof -
  have a: "write_to_file demo_file_logger" by (simp add: demo_file_logger_def)
  have b: "can_open (log_file_path demo_file_logger) demo_world_1"
    by (simp add: demo_file_logger_def demo_world_1_def demo_world_def can_open_def parent_dir_def)
  from echo_plain_line [OF a b, of "''disk full''" "''ERROR''"] obtain exc self' w' where
    e: "echo ''disk full'' ''ERROR'' demo_file_logger demo_world_1 = (exc, self', w')" and
    r: "files w' ''/home/app/log.txt'' =
        Some (demo_header @ ''[2024-01-01 10:00:01]::[APP]::ERROR::disk full'' @ [newline])"
       "log_list self' = [''[2024-01-01 10:00:01]::[APP]::ERROR::disk full'' @ [newline]]"
       "log_list_to_send self' = [''[2024-01-01 10:00:01]::[APP]::ERROR::disk full'' @ [newline]]"
    by (auto simp: Let_def demo_file_logger_def demo_world_1_def demo_world_def
        demo_rendered_full file_content_def)
  from a b e r show ?thesis by blast
qed

text \<open>
  C2. On a logger constructed with \<open>write_to_file\<close>, after any earlier calls \<open>pre\<close> that are
  none or end with a flush, \<open>N\<close> leveled calls \<open>cs\<close> followed by \<open>flush_logs(False)\<close> twice
  return first the \<open>N\<close> lines of \<open>cs\<close> in call order, then the empty list. A call of the
  run raises nothing but the \<^verbatim>\<open>MarkupError\<close> of the console, and its line is logged by then.
  Each leveled call reads the clock twice, so the \<open>k\<close>-th line carries the reading number
  \<open>2k\<close> after those consumed before.
\<close>

theorem flush_returns_pending_lines:
  assumes "Logger_init True d s p sh w0 = Inr (self0, w1)"
    and "pre = [] \<or> (\<exists>b. last pre = Flush b)"
    and "\<forall>c \<in> set cs. is_leveled c"
  shows "\<exists>rs self w. run pre self0 w1 = (rs, self, w) \<and>
           (\<exists>rs' self' w'. run (cs @ [Flush False, Flush False]) self w = (rs', self', w') \<and>
              flushed rs' =
                [expected_lines sh p (clock w1)
                   (ticks w1 + 2 * length (filter is_leveled pre)) cs, []] \<and>
              set (raised rs') \<subseteq> {MarkupError}) \<and>
           length (expected_lines sh p (clock w1)
                      (ticks w1 + 2 * length (filter is_leveled pre)) cs) = length cs"
proof -
  from Logger_init_ready [OF assms(1)] have
    rd0: "ready self0 w1" and e0: "log_list_to_send self0 = []" and
    c0: "write_to_file self0" "prefix self0 = p" "short_timestamp self0 = sh"
    by simp_all
  from run_ready [OF rd0, of pre] obtain rs self w where
    r1: "run pre self0 w1 = (rs, self, w)" and rd: "ready self w" and
    cfg: "same_config self0 self" and env: "same_env w1 w" and
    t: "ticks w = ticks w1 + reads_per_call self0 * length (filter is_leveled pre)"
    by blast
  have pend: "log_list_to_send self = []"
  proof (cases "pre = []")
    case True
    with r1 e0 show ?thesis by simp
  next
    case False
    with assms(2) obtain b where "last pre = Flush b" by blast
    from run_ends_with_flush [OF rd0 False this r1] show ?thesis .
  qed
  have c: "write_to_file self" "prefix self = p" "short_timestamp self = sh"
    using cfg c0 by (simp_all add: same_config_def)
  have lines: "logged_lines self w cs =
      expected_lines sh p (clock w1) (ticks w1 + 2 * length (filter is_leveled pre)) cs"
    using env t c c0 by (simp add: logged_lines_def same_env_def reads_per_call_def)
  from run_ready [OF rd, of cs] obtain o2 self2 w2 where
    r2: "run cs self w = (o2, self2, w2)" and e2: "set (raised o2) \<subseteq> {MarkupError}" by blast
  from run_leveled_pending [OF rd assms(3) r2] pend have
    o2: "flushed o2 = []" and p2: "log_list_to_send self2 = logged_lines self w cs" by simp_all
  let ?rs' = "o2 @ [Inr (Some (logged_lines self w cs)), Inr (Some [])]"
  have r3: "run (cs @ [Flush False, Flush False]) self w =
        (?rs', self2\<lparr>log_list_to_send := []\<rparr>, w2)"
    by (simp add: run_append r2 p2 flush_logs_def Let_def)
  have f3: "flushed ?rs' =
      [expected_lines sh p (clock w1) (ticks w1 + 2 * length (filter is_leveled pre)) cs, []]"
    by (simp add: flushed_append o2 lines)
  have e3: "set (raised ?rs') \<subseteq> {MarkupError}"
    using e2 by (simp add: raised_append)
  have second: "\<exists>rs' self' w'. run (cs @ [Flush False, Flush False]) self w = (rs', self', w') \<and>
      flushed rs' =
        [expected_lines sh p (clock w1) (ticks w1 + 2 * length (filter is_leveled pre)) cs, []] \<and>
      set (raised rs') \<subseteq> {MarkupError}"
    by (rule exI [where x = ?rs'], rule exI [where x = "self2\<lparr>log_list_to_send := []\<rparr>"],
        rule exI [where x = w2], intro conjI, rule r3, rule f3, rule e3)
  show ?thesis
    by (rule exI [where x = rs], rule exI [where x = self], rule exI [where x = w],
        intro conjI, rule r1, rule second, rule length_expected_lines [OF assms(3)])
qed

text \<open>C2 at a sample input: one info and a flush, then an error and a warning, then the two flushes.\<close>

theorem flush_returns_pending_lines_witness:
  "Logger_init True False False ''APP'' False demo_world = Inr (demo_file_logger, demo_world_1) \<and>
   (\<exists>rs self w. run [Log ''start'', Flush False] demo_file_logger demo_world_1 = (rs, self, w) \<and>
      (\<exists>rs' self' w'.
         run ([Error ''disk full'', Warn ''low''] @ [Flush False, Flush False]) self w =
           (rs', self', w') \<and>
         flushed rs' =
           [[''[2024-01-01 10:00:03]::[APP]::ERROR::disk full'' @ [newline],
             ''[2024-01-01 10:00:05]::[APP]::WARN::low'' @ [newline]], []]))"
proof -
  have p: "[Log ''start'', Flush False] = [] \<or> (\<exists>b. last [Log ''start'', Flush False] = Flush b)"
    by auto
  have l: "\<forall>c \<in> set [Error ''disk full'', Warn ''low'']. is_leveled c" by simp
  have t: "ticks demo_world_1 = 1" "clock demo_world_1 = demo_clock"
    by (simp_all add: demo_world_1_def demo_world_def)
  have e: "expected_lines False ''APP'' (clock demo_world_1)
             (ticks demo_world_1 + 2 * length (filter is_leveled [Log ''start'', Flush False]))
             [Error ''disk full'', Warn ''low''] =
           [''[2024-01-01 10:00:03]::[APP]::ERROR::disk full'' @ [newline],
            ''[2024-01-01 10:00:05]::[APP]::WARN::low'' @ [newline]]"
    by (simp add: t plain_line_def demo_rendered_full_any zpad_demo zpad_demo_more)
  from flush_returns_pending_lines [OF demo_init p l, unfolded e] demo_init show ?thesis
    by blast
qed

text \<open>
  C3. After construction and any calls \<open>cs\<close>, of either kind and in any number,
  \<open>flush_logs(True)\<close> returns \<open>log_list\<close>, which holds the line of every leveled call of
  \<open>cs\<close> in call order (nothing without \<open>write_to_file\<close>), also of a call whose console line
  raised \<^verbatim>\<open>MarkupError\<close>, the only exception of such a run; afterwards
  \<open>log_list_to_send\<close> is empty and \<open>log_list\<close> is unchanged.
\<close>

theorem flush_from_start_returns_history:
  assumes "Logger_init wtf d s p sh w0 = Inr (self0, w1)"
  shows "\<exists>rs self w. run cs self0 w1 = (rs, self, w) \<and>
           set (raised rs) \<subseteq> {MarkupError} \<and>
           log_list self = (if wtf then expected_lines sh p (clock w1) (ticks w1) cs else []) \<and>
           flush_logs True self = (log_list self, self\<lparr>log_list_to_send := []\<rparr>) \<and>
           do_call (Flush True) self w =
             (Inr (Some (log_list self)), self\<lparr>log_list_to_send := []\<rparr>, w)"
proof -
  from Logger_init_ready [OF assms] have
    rd0: "ready self0 w1" and e0: "log_list self0 = []" and
    c0: "write_to_file self0 = wtf" "prefix self0 = p" "short_timestamp self0 = sh"
    by simp_all
  from run_ready [OF rd0, of cs] obtain rs self w where
    r1: "run cs self0 w1 = (rs, self, w)" and
    l: "log_list self = log_list self0 @ logged_lines self0 w1 cs" and
    ex: "set (raised rs) \<subseteq> {MarkupError}"
    by blast
  have "log_list self = (if wtf then expected_lines sh p (clock w1) (ticks w1) cs else [])"
    using l e0 c0 by (simp add: logged_lines_def)
  with r1 ex show ?thesis by (simp add: flush_logs_def Let_def)
qed

text \<open>C3 at a sample input: three leveled calls with a flush of each kind in between: the full history comes back.\<close>

theorem flush_from_start_returns_history_witness:
  "Logger_init True False False ''APP'' False demo_world = Inr (demo_file_logger, demo_world_1) \<and>
   (\<exists>rs self w.
      run [Log ''start'', Flush False, Error ''disk full'', Flush True, Warn ''low'']
        demo_file_logger demo_world_1 = (rs, self, w) \<and>
      flush_logs True self =
        ([''[2024-01-01 10:00:01]::[APP]::INFO::start'' @ [newline],
          ''[2024-01-01 10:00:03]::[APP]::ERROR::disk full'' @ [newline],
          ''[2024-01-01 10:00:05]::[APP]::WARN::low'' @ [newline]],
         self\<lparr>log_list_to_send := []\<rparr>))"
proof -
  have t: "ticks demo_world_1 = 1" "clock demo_world_1 = demo_clock"
    by (simp_all add: demo_world_1_def demo_world_def)
  from flush_from_start_returns_history [OF demo_init,
      of "[Log ''start'', Flush False, Error ''disk full'', Flush True, Warn ''low'']"]
  obtain rs self w where
    r: "run [Log ''start'', Flush False, Error ''disk full'', Flush True, Warn ''low'']
        demo_file_logger demo_world_1 = (rs, self, w)" and
    l: "log_list self = expected_lines False ''APP'' (clock demo_world_1) (ticks demo_world_1)
          [Log ''start'', Flush False, Error ''disk full'', Flush True, Warn ''low'']" and
    f: "flush_logs True self = (log_list self, self\<lparr>log_list_to_send := []\<rparr>)"
    by auto
  have "log_list self =
        [''[2024-01-01 10:00:01]::[APP]::INFO::start'' @ [newline],
          ''[2024-01-01 10:00:03]::[APP]::ERROR::disk full'' @ [newline],
          ''[2024-01-01 10:00:05]::[APP]::WARN::low'' @ [newline]]"
    by (simp add: l t plain_line_def demo_rendered_full_any zpad_demo zpad_demo_more)
  with r f demo_init show ?thesis by simp
qed




text \<open>
  C5. In every state reached from construction by calls \<open>cs\<close> of either kind, \<open>log_list_to_send\<close>
  is a suffix of \<open>log_list\<close>, namely the part appended to \<open>log_list\<close> by the leveled calls made
  since the last flush (since construction when there was none): \<open>log_list\<close> is what it was
  right after that flush, followed by \<open>log_list_to_send\<close>. As \<open>cs\<close> is any sequence, every
  operation preserves this, also a call that raises the \<^verbatim>\<open>MarkupError\<close> of the console, the
  only exception of such a run.
\<close>

theorem pending_is_suffix_of_all:
  assumes "Logger_init wtf d s p sh w0 = Inr (self0, w1)"
  shows "\<exists>rs self w.
           run cs self0 w1 = (rs, self, w) \<and>
           set (raised rs) \<subseteq> {MarkupError} \<and>
           log_list_to_send self =
             (if wtf
              then expected_lines sh p (clock w1)
                     (ticks w1 + 2 * length (filter is_leveled (before_last_flush cs)))
                     (since_last_flush cs)
              else []) \<and>
           log_list self =
             (if wtf then expected_lines sh p (clock w1) (ticks w1) (before_last_flush cs) else []) @
             log_list_to_send self \<and>
           (\<exists>older. log_list self = older @ log_list_to_send self)"
proof -
  let ?pre = "before_last_flush cs" and ?post = "since_last_flush cs"
  from Logger_init_ready [OF assms] have
    rd0: "ready self0 w1" and e0: "log_list_to_send self0 = []" "log_list self0 = []" and
    c0: "write_to_file self0 = wtf" "prefix self0 = p" "short_timestamp self0 = sh"
    by simp_all
  from run_ready [OF rd0, of ?pre] obtain rs1 self1 w2 where
    r1: "run ?pre self0 w1 = (rs1, self1, w2)" and rd1: "ready self1 w2" and
    cfg: "same_config self0 self1" and env: "same_env w1 w2" and
    l1: "log_list self1 = log_list self0 @ logged_lines self0 w1 ?pre" and
    t: "ticks w2 = ticks w1 + reads_per_call self0 * length (filter is_leveled ?pre)" and
    ex1: "set (raised rs1) \<subseteq> {MarkupError}"
    by blast
  have pend1: "log_list_to_send self1 = []"
  proof (cases "?pre = []")
    case True
    with r1 e0 show ?thesis by simp
  next
    case False
    with before_last_flush_ends [of cs] obtain b where "last ?pre = Flush b" by blast
    from run_ends_with_flush [OF rd0 False this r1] show ?thesis .
  qed
  from run_ready [OF rd1, of ?post] obtain rs2 self w where
    r2: "run ?post self1 w2 = (rs2, self, w)" and
    l: "log_list self = log_list self1 @ logged_lines self1 w2 ?post" and
    ex2: "set (raised rs2) \<subseteq> {MarkupError}" by blast
  from run_leveled_pending [OF rd1 since_last_flush_leveled r2] pend1 have
    p: "log_list_to_send self = logged_lines self1 w2 ?post" by simp
  have "run (?pre @ ?post) self0 w1 = (rs1 @ rs2, self, w)"
    by (simp add: run_append r1 r2)
  then have r: "run cs self0 w1 = (rs1 @ rs2, self, w)"
    using split_at_last_flush [of cs] by simp
  have a: "log_list self1 =
      (if wtf then expected_lines sh p (clock w1) (ticks w1) ?pre else [])"
    using l1 e0 c0 by (simp add: logged_lines_def)
  have b: "logged_lines self1 w2 ?post =
      (if wtf then expected_lines sh p (clock w1)
                     (ticks w1 + 2 * length (filter is_leveled ?pre)) ?post else [])"
    using cfg env t c0 by (simp add: logged_lines_def same_config_def same_env_def reads_per_call_def)
  have p': "log_list_to_send self =
      (if wtf then expected_lines sh p (clock w1)
                     (ticks w1 + 2 * length (filter is_leveled ?pre)) ?post else [])"
    using p b by simp
  have l': "log_list self =
      (if wtf then expected_lines sh p (clock w1) (ticks w1) ?pre else []) @ log_list_to_send self"
    using l a p by simp
  then have "\<exists>older. log_list self = older @ log_list_to_send self" by blast
  moreover have "set (raised (rs1 @ rs2)) \<subseteq> {MarkupError}"
    using ex1 ex2 by (simp add: raised_append)
  ultimately show ?thesis using r p' l' by blast
qed

text \<open>C5 at a sample input: a flush, then an error and a warning: the two lines are pending, after the first.\<close>

theorem pending_is_suffix_of_all_witness:
  "Logger_init True False False ''APP'' False demo_world = Inr (demo_file_logger, demo_world_1) \<and>
   (\<exists>rs self w.
      run [Log ''start'', Flush False, Error ''disk full'', Warn ''low'']
        demo_file_logger demo_world_1 = (rs, self, w) \<and>
      log_list_to_send self =
        [''[2024-01-01 10:00:03]::[APP]::ERROR::disk full'' @ [newline],
         ''[2024-01-01 10:00:05]::[APP]::WARN::low'' @ [newline]] \<and>
      log_list self = [''[2024-01-01 10:00:01]::[APP]::INFO::start'' @ [newline]] @
                      log_list_to_send self)"
proof -
  let ?cs = "[Log ''start'', Flush False, Error ''disk full'', Warn ''low'']"
  have b: "before_last_flush ?cs = [Log ''start'', Flush False]"
    and a: "since_last_flush ?cs = [Error ''disk full'', Warn ''low'']"
    by (simp_all add: before_last_flush_def since_last_flush_def)
  have t: "ticks demo_world_1 = 1" "clock demo_world_1 = demo_clock"
    by (simp_all add: demo_world_1_def demo_world_def)
  have e1: "expected_lines False ''APP'' (clock demo_world_1)
             (ticks demo_world_1 + 2 * length (filter is_leveled [Log ''start'', Flush False]))
             [Error ''disk full'', Warn ''low''] =
           [''[2024-01-01 10:00:03]::[APP]::ERROR::disk full'' @ [newline],
            ''[2024-01-01 10:00:05]::[APP]::WARN::low'' @ [newline]]"
    by (simp add: t plain_line_def demo_rendered_full_any zpad_demo zpad_demo_more)
  have e2: "expected_lines False ''APP'' (clock demo_world_1) (ticks demo_world_1)
             [Log ''start'', Flush False] =
           [''[2024-01-01 10:00:01]::[APP]::INFO::start'' @ [newline]]"
    by (simp add: t plain_line_def demo_rendered_full_any zpad_demo zpad_demo_more)
  from pending_is_suffix_of_all [OF demo_init, of ?cs, unfolded a b e1 e2] demo_init
  show ?thesis by (simp only: if_True) blast
qed

text \<open>
  C6. Constructing a logger without \<open>write_to_file\<close> never fails and leaves the files and the
  directories as they were (no \<open>logs\<close> directory either); any calls after it raise nothing
  but the \<^verbatim>\<open>MarkupError\<close> of the console, leave the files and directories as they were
  and both buffers empty, and every flush among them, with either flag, returns the empty
  list.
\<close>

theorem console_only_logger_touches_no_file:
  "\<exists>self0 w1. Logger_init False d s p sh w0 = Inr (self0, w1) \<and>
      files w1 = files w0 \<and> dirs w1 = dirs w0 \<and>
      (\<exists>rs self w. run cs self0 w1 = (rs, self, w) \<and>
         files w = files w0 \<and> dirs w = dirs w0 \<and>
         log_list self = [] \<and> log_list_to_send self = [] \<and>
         (\<forall>out \<in> set (flushed rs). out = []) \<and>
         set (raised rs) \<subseteq> {MarkupError} \<and>
         flush_logs True self = ([], self) \<and> flush_logs False self = ([], self))"
proof -
  obtain self0 w1 where i: "Logger_init False d s p sh w0 = Inr (self0, w1)"
    by (simp add: Logger_init_console_only)
  have w1: "w1 = (if s then w0\<lparr>ticks := Suc (ticks w0)\<rparr> else w0)"
    using i by (simp add: Logger_init_console_only)
  have fw: "files w1 = files w0" "dirs w1 = dirs w0"
    by (simp_all add: w1)
  from Logger_init_ready [OF i] have
    rd0: "ready self0 w1" and e0: "log_list self0 = []" "log_list_to_send self0 = []" and
    c0: "\<not> write_to_file self0" by simp_all
  from run_ready [OF rd0, of cs] obtain rs self w where
    r: "run cs self0 w1 = (rs, self, w)" and env: "same_env w1 w" and
    l: "log_list self = log_list self0 @ logged_lines self0 w1 cs" and
    f: "if write_to_file self0
       then file_content (log_file_path self0) w =
            file_content (log_file_path self0) w1 @ concat (logged_lines self0 w1 cs) \<and>
            (files w1 (log_file_path self0) \<noteq> None \<longrightarrow> files w (log_file_path self0) \<noteq> None)
       else files w = files w1" and
    ex: "set (raised rs) \<subseteq> {MarkupError}"
    by blast
  have inv0: "\<exists>older. log_list self0 = older @ log_list_to_send self0" using e0 by simp
  from run_suffix [OF rd0 inv0 r] have
    suf: "\<exists>older. log_list self = older @ log_list_to_send self" and
    sub: "\<forall>out \<in> set (flushed rs). set out \<subseteq> set (log_list self)" by simp_all
  have l': "log_list self = []" using l e0 c0 by (simp add: logged_lines_def)
  have p': "log_list_to_send self = []" using suf l' by simp
  have o: "\<forall>out \<in> set (flushed rs). out = []" using sub l' by simp
  have f': "files w = files w0" using f c0 fw by simp
  have d': "dirs w = dirs w0" using env fw by (simp add: same_env_def)
  have fl: "flush_logs True self = ([], self)" "flush_logs False self = ([], self)"
    using l' p' by (simp_all add: flush_logs_def Let_def)
  show ?thesis
    by (rule exI [where x = self0], rule exI [where x = w1], intro conjI, rule i, rule fw(1),
        rule fw(2), rule exI [where x = rs], rule exI [where x = self], rule exI [where x = w],
        intro conjI, rule r, rule f', rule d', rule l', rule p', rule o, rule ex, rule fl(1),
        rule fl(2))
qed

text \<open>C6 at a sample input: in-directory mode on a world without a \<open>logs\<close> directory, two calls and a flush of each kind.\<close>

theorem console_only_logger_touches_no_file_witness:
  "\<exists>self0 w1. Logger_init False True False ''APP'' False demo_world = Inr (self0, w1) \<and>
      files w1 = files demo_world \<and> dirs w1 = dirs demo_world \<and>
      (\<exists>rs self w.
         run [Log ''start'', Flush False, Error ''disk full'', Flush True] self0 w1 =
           (rs, self, w) \<and>
         files w = files demo_world \<and> dirs w = dirs demo_world \<and>
         log_list self = [] \<and> log_list_to_send self = [] \<and>
         (\<forall>out \<in> set (flushed rs). out = []) \<and>
         set (raised rs) \<subseteq> {MarkupError} \<and>
         flush_logs True self = ([], self) \<and> flush_logs False self = ([], self))"
  by (rule console_only_logger_touches_no_file)

text \<open>
  C7. Every timestamp string produced for a log line matches \<open>HH:MM\<close> when \<open>short_timestamp\<close>
  is set and \<open>YYYY-MM-DD HH:MM:SS\<close> otherwise, whatever the microseconds of the reading; it is
  formatted from the current reading of the clock, which the call consumes, so the next call
  formats the next reading.
\<close>

theorem timestamp_format:
  assumes "valid_datetime (clock w (ticks w))"
  shows "\<exists>ts. make_timestamp_string self w = Inr (ts, w\<lparr>ticks := ticks w + 1\<rparr>) \<and>
              format_timestamp (short_timestamp self) (clock w (ticks w)) = Inr ts \<and>
              ts = rendered_timestamp (short_timestamp self) (clock w (ticks w)) \<and>
              (if short_timestamp self then matches_pattern ''HH:MM'' ts
               else matches_pattern ''YYYY-MM-DD HH:MM:SS'' ts)"
proof -
  let ?d = "clock w (ticks w)"
  have "matches_pattern ''HH:MM'' (rendered_timestamp True ?d)"
    using short_matches [OF assms] by (simp add: rendered_timestamp_def)
  moreover have "matches_pattern ''YYYY-MM-DD HH:MM:SS'' (rendered_timestamp False ?d)"
    using full_matches [OF assms] by (simp add: rendered_timestamp_def)
  ultimately show ?thesis
    by (simp add: make_timestamp_string_eq format_timestamp_eq)
qed

text \<open>C7 at a sample input: both formats at the first reading of a sample clock.\<close>

theorem timestamp_format_witness:
  "valid_datetime (clock demo_world (ticks demo_world)) \<and>
   make_timestamp_string (demo_logger True) demo_world = Inr (''10:00'', demo_world\<lparr>ticks := 1\<rparr>) \<and>
   make_timestamp_string (demo_logger False) demo_world =
     Inr (''2024-01-01 10:00:00'', demo_world\<lparr>ticks := 1\<rparr>) \<and>
   matches_pattern ''HH:MM'' ''10:00'' \<and>
   matches_pattern ''YYYY-MM-DD HH:MM:SS'' ''2024-01-01 10:00:00''"
proof -
  have v: "valid_datetime (clock demo_world (ticks demo_world))"
    by (simp add: demo_world_def demo_clock_def valid_datetime_def)
  have t: "ticks demo_world = 0" "clock demo_world = demo_clock" by (simp_all add: demo_world_def)
  show ?thesis
    using v timestamp_format [OF v, of "demo_logger True"] timestamp_format [OF v, of "demo_logger False"]
    by (simp add: t demo_rendered_short demo_rendered_full demo_logger_def)
qed

text \<open>
  C8, as claimed: any two loggers without \<open>session\<close> constructed in the same working directory
  have the same path, and the second construction discards what the first wrote. It fails
  when only one of the two has \<open>in_dir\<close>: the paths differ and the file of the first keeps its
  content.
\<close>

theorem fixed_path_is_shared_counterexample:
  "Logger_init True False False ''APP'' False demo_world = Inr (demo_file_logger, demo_world_1) \<and>
   Logger_init True True False ''APP'' False demo_world_1 = Inr (demo_dir_logger, demo_world_2) \<and>
   cwd demo_world_1 = cwd demo_world \<and>
   log_file_path demo_file_logger = ''/home/app/log.txt'' \<and>
   log_file_path demo_dir_logger = ''/home/app/logs/log.txt'' \<and>
   log_file_path demo_dir_logger \<noteq> log_file_path demo_file_logger \<and>
   files demo_world_2 (log_file_path demo_file_logger) = Some demo_header"
proof -
  have ts: "rendered_timestamp False (demo_clock (Suc 0)) = ''2024-01-01 10:00:01''"
    by (simp add: demo_rendered_full_any zpad_demo)
  have i2: "Logger_init True True False ''APP'' False demo_world_1 = Inr (demo_dir_logger, demo_world_2)"
    by (simp add: Logger_init_def and_then_Inr isdir_def mkdir_def parent_dir_def Let_def
        open_log_file_def open_file_def make_timestamp_string_eq file_write_def file_content_def
        demo_world_1_def demo_world_def demo_dir_logger_def demo_world_2_def ts)
  have rest: "cwd demo_world_1 = cwd demo_world"
    "log_file_path demo_file_logger = ''/home/app/log.txt''"
    "log_file_path demo_dir_logger = ''/home/app/logs/log.txt''"
    "log_file_path demo_dir_logger \<noteq> log_file_path demo_file_logger"
    "files demo_world_2 (log_file_path demo_file_logger) = Some demo_header"
    by (simp_all add: demo_world_2_def demo_world_1_def demo_world_def demo_file_logger_def
        demo_dir_logger_def)
  from demo_init i2 rest show ?thesis by (simp only: simp_thms)
qed

text \<open>
  C8, amended: a logger constructed with \<open>write_to_file\<close> and without \<open>session\<close> has the path
  \<open>cwd[/logs]/log.txt\<close>, the \<open>/logs\<close> part present exactly with \<open>in_dir\<close>; construction leaves
  the file holding the dashed header line only, whatever it held before. After any calls on
  that logger, which raise nothing but the \<^verbatim>\<open>MarkupError\<close> of the console, the file holds
  the header and the lines; a second such construction in the same
  working directory and with the same \<open>in_dir\<close> then succeeds, resolves to the same path and
  leaves the file holding its own header only.
\<close>

theorem fixed_path_is_truncated:
  assumes "Logger_init True d False p1 sh1 w0 = Inr (a, w1)"
  shows "log_file_path a = cwd w0 @ (if d then ''/logs'' else []) @ ''/log.txt'' \<and>
         files w1 (log_file_path a) =
           Some (header (rendered_timestamp sh1 (clock w0 (ticks w0)))) \<and>
         (\<exists>rs a' w2. run cs a w1 = (rs, a', w2) \<and>
            set (raised rs) \<subseteq> {MarkupError} \<and>
            files w2 (log_file_path a) =
              Some (header (rendered_timestamp sh1 (clock w0 (ticks w0))) @
                    concat (expected_lines sh1 p1 (clock w1) (ticks w1) cs)) \<and>
            (\<exists>b w3. Logger_init True d False p2 sh2 w2 = Inr (b, w3) \<and>
               log_file_path b = log_file_path a \<and>
               files w3 (log_file_path b) =
                 Some (header (rendered_timestamp sh2 (clock w2 (ticks w2))))))"
proof -
  let ?path = "cwd w0 @ (if d then ''/logs'' else []) @ ''/log.txt''"
  let ?h1 = "header (rendered_timestamp sh1 (clock w0 (ticks w0)))"
  note i1 = Logger_init_file [OF assms, unfolded resolved_path_fixed]
  have pa: "log_file_path a = ?path" by (subst i1(1)) simp
  have wa: "write_to_file a" "prefix a = p1" "short_timestamp a = sh1"
    by (subst i1(1), simp)+
  have f1: "files w1 ?path = Some ?h1" using i1(3) by (simp add: header_of_def)
  have op1: "can_open ?path w1" by (rule i1(2))
  have rd: "ready a w1" using op1 by (simp add: ready_def pa)
  from run_ready [OF rd, of cs] obtain rs a' w2 where
    r: "run cs a w1 = (rs, a', w2)" and env: "same_env w1 w2" and
    fc: "if write_to_file a
       then file_content (log_file_path a) w2 =
            file_content (log_file_path a) w1 @ concat (logged_lines a w1 cs) \<and>
            (files w1 (log_file_path a) \<noteq> None \<longrightarrow> files w2 (log_file_path a) \<noteq> None)
       else files w2 = files w1" and
    ex: "set (raised rs) \<subseteq> {MarkupError}"
    by blast
  have ll: "logged_lines a w1 cs = expected_lines sh1 p1 (clock w1) (ticks w1) cs"
    by (simp add: logged_lines_def wa)
  have f2: "files w2 ?path = Some (?h1 @ concat (expected_lines sh1 p1 (clock w1) (ticks w1) cs))"
    using fc f1 by (auto simp: wa pa ll file_content_def split: option.splits)
  have cw: "cwd w2 = cwd w0" "dirs w2 = dirs w1" using env i1(5) by (simp_all add: same_env_def)
  have rp: "resolved_path d False w2 = ?path" by (simp add: resolved_path_fixed cw)
  have op2: "can_open (resolved_path d False w2) w2"
    using op1 by (simp add: rp can_open_def cw)
  have lg: "d \<longrightarrow> cwd w2 @ ''/logs'' \<in> dirs w2" using i1(9) by (simp add: cw)
  from Logger_init_file_succeeds [OF op2 lg, of p2 sh2] obtain b w3 where
    i2: "Logger_init True d False p2 sh2 w2 = Inr (b, w3)" by blast
  note i2' = Logger_init_file [OF i2, unfolded rp]
  have pb: "log_file_path b = ?path" by (subst i2'(1)) simp
  have f3: "files w3 ?path = Some (header (rendered_timestamp sh2 (clock w2 (ticks w2))))"
    using i2'(3) by (simp add: header_of_def)
  have second: "\<exists>b w3. Logger_init True d False p2 sh2 w2 = Inr (b, w3) \<and>
               log_file_path b = log_file_path a \<and>
               files w3 (log_file_path b) =
                 Some (header (rendered_timestamp sh2 (clock w2 (ticks w2))))"
    by (rule exI [where x = b], rule exI [where x = w3]) (simp add: i2 pb pa f3)
  have run: "\<exists>rs a' w2. run cs a w1 = (rs, a', w2) \<and>
            set (raised rs) \<subseteq> {MarkupError} \<and>
            files w2 (log_file_path a) =
              Some (?h1 @ concat (expected_lines sh1 p1 (clock w1) (ticks w1) cs)) \<and>
            (\<exists>b w3. Logger_init True d False p2 sh2 w2 = Inr (b, w3) \<and>
               log_file_path b = log_file_path a \<and>
               files w3 (log_file_path b) =
                 Some (header (rendered_timestamp sh2 (clock w2 (ticks w2)))))"
    by (rule exI [where x = rs], rule exI [where x = a'], rule exI [where x = w2])
       (simp only: r ex f2 [folded pa] second simp_thms)
  show ?thesis using pa f1 [folded pa] run by (simp only: simp_thms)
qed

text \<open>C8 at a sample input: the sample logger, one error, then a second logger with another prefix and format.\<close>

theorem fixed_path_is_truncated_witness:
  "Logger_init True False False ''APP'' False demo_world = Inr (demo_file_logger, demo_world_1) \<and>
   log_file_path demo_file_logger = cwd demo_world @ (if False then ''/logs'' else []) @ ''/log.txt'' \<and>
   files demo_world_1 (log_file_path demo_file_logger) =
     Some (header (rendered_timestamp False (clock demo_world (ticks demo_world)))) \<and>
   (\<exists>rs a' w2. run [Error ''disk full''] demo_file_logger demo_world_1 = (rs, a', w2) \<and>
      set (raised rs) \<subseteq> {MarkupError} \<and>
      files w2 (log_file_path demo_file_logger) =
        Some (header (rendered_timestamp False (clock demo_world (ticks demo_world))) @
              concat (expected_lines False ''APP'' (clock demo_world_1) (ticks demo_world_1)
                        [Error ''disk full''])) \<and>
      (\<exists>b w3. Logger_init True False False ''B'' True w2 = Inr (b, w3) \<and>
         log_file_path b = log_file_path demo_file_logger \<and>
         files w3 (log_file_path b) =
           Some (header (rendered_timestamp True (clock w2 (ticks w2))))))"
  by (rule conjI [OF demo_init fixed_path_is_truncated [OF demo_init]])

text \<open>
  C9. An emit accepts any level tag outside \<open>INFO\<close>, \<open>ERROR\<close>, \<open>WARN\<close> and \<open>INIT\<close> without
  raising. The source does not: \<^verbatim>\<open>_echo\<close> puts the tag into the markup as it is, so with the
  tag \<^verbatim>\<open>[/]\<close> Rich reads a closing tag where the style \<open>white bold\<close> is still open, closes
  that, and finds nothing left to close at the closing tag of the logger: the emit raises
  \<^verbatim>\<open>MarkupError\<close> and nothing reaches the console. With \<open>write_to_file\<close> the plain line has
  been written and buffered by then.
\<close>

theorem unknown_tag_raises_markup_error:
  "color_code_of ''[/]'' = ''white bold'' \<and>
   echo ''probe'' ''[/]'' (demo_logger False) demo_world =
     (Some MarkupError, demo_logger False, demo_world\<lparr>ticks := 1\<rparr>) \<and>
   echo ''probe'' ''[/]'' demo_file_logger demo_world_1 =
     (Some MarkupError,
      demo_file_logger
        \<lparr>log_list := [''[2024-01-01 10:00:01]::[APP]::[/]::probe'' @ [newline]],
         log_list_to_send := [''[2024-01-01 10:00:01]::[APP]::[/]::probe'' @ [newline]]\<rparr>,
      demo_world_1
        \<lparr>ticks := 3,
         files := [''/home/app/log.txt'' \<mapsto>
           demo_header @ ''[2024-01-01 10:00:01]::[APP]::[/]::probe'' @ [newline]]\<rparr>)"
proof -
  have col: "color_code_of ''[/]'' = ''white bold''" by (simp add: color_code_of_def)
  have ts: "rendered_timestamp False (demo_clock 0) = ''2024-01-01 10:00:00''"
    "rendered_timestamp False (demo_clock (Suc 0)) = ''2024-01-01 10:00:01''"
    "rendered_timestamp False (demo_clock (Suc (Suc 0))) = ''2024-01-01 10:00:02''"
    by (simp_all add: demo_rendered_full_any zpad_demo zpad_demo_two)
  have r1: "render demo_world (markup_no_prefix ''2024-01-01 10:00:00'' ''white bold'' ''[/]'' ''probe'') =
      Inl MarkupError"
    by (simp add: render_def parse_def markup_no_prefix_def tag_at_def
        tag_start_def partition_eq_def backslash_def yield_text_def pop_def strip_def
        demo_world_def)
  have r2: "render demo_world_1
      (markup_with_prefix ''2024-01-01 10:00:02'' ''APP'' ''white bold'' ''[/]'' ''probe'') =
      Inl MarkupError"
    by (simp add: render_def parse_def markup_with_prefix_def tag_at_def
        tag_start_def partition_eq_def backslash_def yield_text_def pop_def strip_def
        demo_world_1_def demo_world_def)
  have n: "\<not> write_to_file (demo_logger False)" by (simp add: demo_logger_def)
  have a: "write_to_file demo_file_logger" by (simp add: demo_file_logger_def)
  have b: "can_open (log_file_path demo_file_logger) demo_world_1"
    by (simp add: demo_file_logger_def demo_world_1_def demo_world_def can_open_def parent_dir_def)
  have e1: "echo ''probe'' ''[/]'' (demo_logger False) demo_world =
     (Some MarkupError, demo_logger False, demo_world\<lparr>ticks := 1\<rparr>)"
    by (simp add: echo_console_only [OF n])
       (simp add: demo_logger_def demo_world_def ts console_line_def col printed_def
          r1 [unfolded demo_world_def])
  have v: "clock demo_world_1 = demo_clock" "ticks demo_world_1 = Suc 0"
    "console demo_world_1 = []" "prefix demo_file_logger = ''APP''"
    "short_timestamp demo_file_logger = False"
    by (simp_all add: demo_world_1_def demo_world_def demo_file_logger_def)
  have p2: "printed demo_world_1
      (console_line ''2024-01-01 10:00:02'' ''APP'' ''[/]'' ''probe'') = (Some MarkupError, [])"
    by (simp add: printed_def console_line_def col r2 v)
  have e2: "echo ''probe'' ''[/]'' demo_file_logger demo_world_1 =
     (Some MarkupError,
      demo_file_logger
        \<lparr>log_list := [''[2024-01-01 10:00:01]::[APP]::[/]::probe'' @ [newline]],
         log_list_to_send := [''[2024-01-01 10:00:01]::[APP]::[/]::probe'' @ [newline]]\<rparr>,
      demo_world_1
        \<lparr>ticks := 3,
         files := [''/home/app/log.txt'' \<mapsto>
           demo_header @ ''[2024-01-01 10:00:01]::[APP]::[/]::probe'' @ [newline]]\<rparr>)"
    by (simp add: echo_file [OF a b] v ts p2)
       (simp add: demo_file_logger_def demo_world_1_def demo_world_def plain_line_def
          file_content_def)
  from col e1 e2 show ?thesis by (simp only: simp_thms)
qed

text \<open>
  C10. Construction with \<open>write_to_file\<close> writes the header line to the file and leaves both
  buffers empty. After any calls, which raise nothing but the \<^verbatim>\<open>MarkupError\<close> of the
  console, the file holds the header followed by the lines of
  \<open>log_list\<close>, while the header is in neither buffer and in no list a flush has returned or
  would return now, with either flag: those lists hold lines of leveled calls only.
\<close>

theorem header_is_never_buffered:
  assumes "Logger_init True d s p sh w0 = Inr (self0, w1)"
  shows "log_list self0 = [] \<and> log_list_to_send self0 = [] \<and>
         files w1 (log_file_path self0) = Some (header_of s sh w0) \<and>
         (\<exists>rs self w. run cs self0 w1 = (rs, self, w) \<and>
            set (raised rs) \<subseteq> {MarkupError} \<and>
            files w (log_file_path self0) = Some (header_of s sh w0 @ concat (log_list self)) \<and>
            log_list self = expected_lines sh p (clock w1) (ticks w1) cs \<and>
            header_of s sh w0 \<notin> set (log_list self) \<and>
            header_of s sh w0 \<notin> set (log_list_to_send self) \<and>
            (\<forall>out \<in> set (flushed rs). header_of s sh w0 \<notin> set out \<and>
                 set out \<subseteq> set (expected_lines sh p (clock w1) (ticks w1) cs)) \<and>
            header_of s sh w0 \<notin> set (fst (flush_logs True self)) \<and>
            header_of s sh w0 \<notin> set (fst (flush_logs False self)))"
proof -
  let ?h = "header_of s sh w0"
  let ?lines = "expected_lines sh p (clock w1) (ticks w1) cs"
  note i = Logger_init_file [OF assms]
  from Logger_init_ready [OF assms] have
    rd0: "ready self0 w1" and e0: "log_list self0 = []" "log_list_to_send self0 = []" and
    c0: "write_to_file self0" "prefix self0 = p" "short_timestamp self0 = sh"
      "log_file_path self0 = resolved_path d s w0"
    by simp_all
  have f1: "files w1 (log_file_path self0) = Some ?h" using i(3) by (simp add: c0)
  from run_ready [OF rd0, of cs] obtain rs self w where
    r: "run cs self0 w1 = (rs, self, w)" and
    l: "log_list self = log_list self0 @ logged_lines self0 w1 cs" and
    fc: "if write_to_file self0
       then file_content (log_file_path self0) w =
            file_content (log_file_path self0) w1 @ concat (logged_lines self0 w1 cs) \<and>
            (files w1 (log_file_path self0) \<noteq> None \<longrightarrow> files w (log_file_path self0) \<noteq> None)
       else files w = files w1" and
    ex: "set (raised rs) \<subseteq> {MarkupError}"
    by blast
  have ll: "logged_lines self0 w1 cs = ?lines" by (simp add: logged_lines_def c0)
  have l': "log_list self = ?lines" using l e0 ll by simp
  have f2: "files w (log_file_path self0) = Some (?h @ concat (log_list self))"
    using fc f1 by (auto simp: c0(1) ll l' file_content_def split: option.splits)
  have inv0: "\<exists>older. log_list self0 = older @ log_list_to_send self0" using e0 by simp
  from run_suffix [OF rd0 inv0 r] obtain older where
    suf: "log_list self = older @ log_list_to_send self" and
    sub: "\<forall>out \<in> set (flushed rs). set out \<subseteq> set (log_list self)" by blast
  have h1: "?h \<notin> set (log_list self)"
    unfolding l' header_of_def by (rule header_not_a_line)
  have ps: "set (log_list_to_send self) \<subseteq> set (log_list self)"
    by (subst suf) simp
  have h2: "?h \<notin> set (log_list_to_send self)" using h1 ps by blast
  have h3: "\<forall>out \<in> set (flushed rs). ?h \<notin> set out \<and> set out \<subseteq> set ?lines"
    using sub h1 unfolding l' by blast
  have h4: "?h \<notin> set (fst (flush_logs True self))" "?h \<notin> set (fst (flush_logs False self))"
    using h1 h2 by (simp_all add: flush_logs_def Let_def)
  have run: "\<exists>rs self w. run cs self0 w1 = (rs, self, w) \<and>
            set (raised rs) \<subseteq> {MarkupError} \<and>
            files w (log_file_path self0) = Some (?h @ concat (log_list self)) \<and>
            log_list self = ?lines \<and>
            ?h \<notin> set (log_list self) \<and>
            ?h \<notin> set (log_list_to_send self) \<and>
            (\<forall>out \<in> set (flushed rs). ?h \<notin> set out \<and> set out \<subseteq> set ?lines) \<and>
            ?h \<notin> set (fst (flush_logs True self)) \<and>
            ?h \<notin> set (fst (flush_logs False self))"
    by (rule exI [where x = rs], rule exI [where x = self], rule exI [where x = w],
        intro conjI, rule r, rule ex, rule f2, rule l', rule h1, rule h2, rule h3, rule h4(1),
        rule h4(2))
  show ?thesis by (intro conjI, rule e0(1), rule e0(2), rule f1, rule run)
qed

text \<open>C10 at a sample input: the sample logger with calls and flushes of both kinds.\<close>

theorem header_is_never_buffered_witness:
  "Logger_init True False False ''APP'' False demo_world = Inr (demo_file_logger, demo_world_1) \<and>
   header_of False False demo_world = demo_header \<and>
   log_list demo_file_logger = [] \<and> log_list_to_send demo_file_logger = [] \<and>
   files demo_world_1 (log_file_path demo_file_logger) = Some demo_header \<and>
   (\<exists>rs self w.
      run [Log ''start'', Flush False, Error ''disk full'', Flush True] demo_file_logger demo_world_1 =
        (rs, self, w) \<and>
      files w (log_file_path demo_file_logger) = Some (demo_header @ concat (log_list self)) \<and>
      demo_header \<notin> set (log_list self) \<and>
      (\<forall>out \<in> set (flushed rs). demo_header \<notin> set out))"
proof -
  have h: "header_of False False demo_world = demo_header"
    by (simp add: header_of_def demo_header_def demo_world_def demo_rendered_full)
  from header_is_never_buffered [OF demo_init,
      of "[Log ''start'', Flush False, Error ''disk full'', Flush True]", unfolded h]
  obtain rs self w where
    e: "log_list demo_file_logger = []" "log_list_to_send demo_file_logger = []"
       "files demo_world_1 (log_file_path demo_file_logger) = Some demo_header" and
    r: "run [Log ''start'', Flush False, Error ''disk full'', Flush True]
          demo_file_logger demo_world_1 = (rs, self, w)" and
    f: "files w (log_file_path demo_file_logger) = Some (demo_header @ concat (log_list self))" and
    n: "demo_header \<notin> set (log_list self)" and
    o: "\<forall>out \<in> set (flushed rs). demo_header \<notin> set out \<and>
          set out \<subseteq> set (expected_lines False ''APP'' (clock demo_world_1) (ticks demo_world_1)
             [Log ''start'', Flush False, Error ''disk full'', Flush True])"
    by blast
  from o have o': "\<forall>out \<in> set (flushed rs). demo_header \<notin> set out" by blast
  have "\<exists>rs self w.
      run [Log ''start'', Flush False, Error ''disk full'', Flush True] demo_file_logger demo_world_1 =
        (rs, self, w) \<and>
      files w (log_file_path demo_file_logger) = Some (demo_header @ concat (log_list self)) \<and>
      demo_header \<notin> set (log_list self) \<and>
      (\<forall>out \<in> set (flushed rs). demo_header \<notin> set out)"
    by (rule exI [where x = rs], rule exI [where x = self], rule exI [where x = w],
        intro conjI, rule r, rule f, rule n, rule o')
  with demo_init h e show ?thesis by (simp only: simp_thms)
qed

end
